theory Spec2Isabelle
  imports Main
begin

section \<open>Data model (db/schema.ts)\<close>

text \<open>
  The two tables of the schema, one record per row.  Columns of type \<open>text\<close>, \<open>uuid\<close> and
  \<open>timestamp\<close> are strings; \<open>sequence\<close> is an \<open>integer\<close> column, a mathematical integer
  here whose 32-bit range the store checks (\<open>int4\<close> below).  The fields carry a prefix
  because the two tables share column names.
\<close>

record VaultKey =
  vk_id :: string
  vk_userId :: string
  vk_vaultId :: string
  vk_encryptedVaultKey :: string
  vk_salt :: string
  vk_nonce :: string
  vk_createdAt :: string
  vk_updatedAt :: string

record SyncLog =
  sl_id :: string
  sl_userId :: string
  sl_vaultId :: string
  sl_encryptedData :: string
  sl_nonce :: string
  sl_haexTimestamp :: string
  sl_sequence :: int
  sl_createdAt :: string

text \<open>The database: the rows of each table, in insertion order.\<close>

record db =
  vaultKeys :: "VaultKey list"
  syncLogs :: "SyncLog list"

section \<open>Requests and responses\<close>

record UserContext =
  userId :: string
  email :: "string option"
  role :: "string option"

text \<open>The JSON bodies accepted by the three POST routes, before validation.\<close>

record vaultKey_json =
  vj_vaultId :: string
  vj_encryptedVaultKey :: string
  vj_salt :: string
  vj_nonce :: string

record log_json =
  encryptedData :: string
  nonce :: string
  haexTimestamp :: string

record pushLogs_json =
  pj_vaultId :: string
  pj_logs :: "log_json list"

record pullLogs_json =
  qj_vaultId :: string
  qj_afterSequence :: "int option"
  qj_limit :: "int option"

text \<open>The entries of the push and pull responses.\<close>

record inserted_log =
  il_id :: string
  il_sequence :: int
  il_haexTimestamp :: string
  il_createdAt :: string

record pulled_log =
  pl_id :: string
  pl_encryptedData :: string
  pl_nonce :: string
  pl_haexTimestamp :: string
  pl_sequence :: int
  pl_createdAt :: string

record vaultKey_view =
  vv_vaultId :: string
  vv_encryptedVaultKey :: string
  vv_salt :: string
  vv_nonce :: string
  vv_createdAt :: string

datatype body =
    ErrorBody string                          \<comment> \<open>\<open>{ error }\<close>\<close>
  | ZodErrorBody                              \<comment> \<open>the validator's own body, contents not modelled\<close>
  | VaultKeyStored string string string string  \<comment> \<open>\<open>{ message, vaultKey: { id, vaultId, createdAt } }\<close>\<close>
  | VaultKeyBody vaultKey_view                \<comment> \<open>\<open>{ vaultKey: { ... } }\<close>\<close>
  | PushBody string nat "inserted_log list"   \<comment> \<open>\<open>{ message, count, logs }\<close>\<close>
  | PullBody "pulled_log list" bool           \<comment> \<open>\<open>{ logs, hasMore }\<close>\<close>

datatype response = Json (body: body) (status: nat)  \<comment> \<open>\<open>c.json(body, status)\<close>\<close>

datatype request =
    PostVaultKey vaultKey_json
  | GetVaultKey string
  | PostPush pushLogs_json
  | PostPull pullLogs_json

section \<open>The environment of a request\<close>

text \<open>
  The statements the routes send to the store.  The conditions of the pull query are the
  ones the route builds with \<open>eq\<close> and \<open>gt\<close>.
\<close>

datatype cond = EqUserId string | EqVaultId string | GtSequence int

datatype statement =
    SelectVaultKey string string      \<comment> \<open>\<open>vaultKeys.findFirst\<close>, by user and vault\<close>
  | InsertVaultKey VaultKey           \<comment> \<open>\<open>insert(vaultKeys).values(row)\<close>\<close>
  | SelectMaxSequence string          \<comment> \<open>\<open>syncLogs.findFirst\<close>, by user, highest sequence first\<close>
  | InsertSyncLogs "SyncLog list"     \<comment> \<open>\<open>insert(syncLogs).values(rows)\<close>\<close>
  | SelectSyncLogs "cond list" int    \<comment> \<open>\<open>syncLogs.findMany\<close>, conditions and limit\<close>

text \<open>
  What a request takes from outside the program: zod's \<open>z.string().uuid()\<close> test, the
  identity provider's \<open>supabase.auth.getUser\<close>, the column defaults \<open>defaultRandom()\<close>
  (the uuid of the i-th row of an insert) and \<open>defaultNow()\<close>, and the statements the
  store refuses for reasons that are not computed here: an index entry too large for a
  page of the index, a resource limit, a lost connection.  Random uuids are taken as
  given; a collision on the primary key is not modelled.  The ids of users come from the
  identity provider and are uuids.
\<close>

record SupabaseUser =
  su_id :: string
  su_email :: "string option"
  su_role :: "string option"

datatype getUser_result =
    GetUser "SupabaseUser option" "string option"  \<comment> \<open>\<open>{ data: { user }, error }\<close>\<close>
  | GetUserThrows

record env =
  is_uuid :: "string \<Rightarrow> bool"
  getUser :: "string \<Rightarrow> getUser_result"
  gen_random_uuid :: "nat \<Rightarrow> string"
  now :: string
  store_refuses :: "statement \<Rightarrow> bool"

section \<open>The store\<close>

text \<open>
  The queries the routes issue, over the rows of a table.  A statement either fails as a
  whole and changes nothing, or succeeds.  A statement fails when
  \<^item> one of its text operands or values contains the character U+0000, which a \<open>text\<close>
    column cannot hold;
  \<^item> it has more bind parameters than the driver sends (65534): an insert binds six
    values per row, the two defaulted columns are not parameters;
  \<^item> the store refuses it for a reason of the environment;
  \<^item> an operand or value of an \<open>integer\<close> column lies outside the 32-bit range;
  \<^item> it violates a unique index;
  \<^item> it is an insert of no rows: the query builder's \<open>values\<close> throws for an empty
    array (\<open>values() must be called with at least one value\<close>) before anything is sent.
  Every query of a route is inside the route's \<open>try\<close>, so each failure ends in its
  \<open>catch\<close>.
\<close>

datatype db_error = EmptyValues | StatementFailed | IntegerOutOfRange | UniqueViolation

definition int4 :: "int \<Rightarrow> bool" where
  "int4 n \<longleftrightarrow> - 2147483648 \<le> n \<and> n \<le> 2147483647"

definition text_ok :: "string \<Rightarrow> bool" where
  "text_ok s \<longleftrightarrow> CHR 0x00 \<notin> set s"

fun cond_texts :: "cond \<Rightarrow> string list" where
  "cond_texts (EqVaultId v) = [v]"
| "cond_texts _ = []"

fun text_parameters :: "statement \<Rightarrow> string list" where
  "text_parameters (SelectVaultKey u v) = [v]"
| "text_parameters (InsertVaultKey k) =
     [vk_vaultId k, vk_encryptedVaultKey k, vk_salt k, vk_nonce k]"
| "text_parameters (SelectMaxSequence u) = []"
| "text_parameters (InsertSyncLogs vals) =
     concat (map (\<lambda>r. [sl_vaultId r, sl_encryptedData r, sl_nonce r, sl_haexTimestamp r]) vals)"
| "text_parameters (SelectSyncLogs conds lim) = concat (map cond_texts conds)"

fun bind_parameters :: "statement \<Rightarrow> nat" where
  "bind_parameters (SelectVaultKey u v) = 3"
| "bind_parameters (InsertVaultKey k) = 5"
| "bind_parameters (SelectMaxSequence u) = 2"
| "bind_parameters (InsertSyncLogs vals) = 6 * length vals"
| "bind_parameters (SelectSyncLogs conds lim) = Suc (length conds)"

definition store_answers :: "env \<Rightarrow> statement \<Rightarrow> bool" where
  "store_answers e st \<longleftrightarrow>
     list_all text_ok (text_parameters st) \<and> bind_parameters st \<le> 65534 \<and> \<not> store_refuses e st"

text \<open>\<open>db.query.vaultKeys.findFirst({ where: and(eq(userId, u), eq(vaultId, v)) })\<close>\<close>

definition vaultKeys_findFirst ::
  "env \<Rightarrow> VaultKey list \<Rightarrow> string \<Rightarrow> string \<Rightarrow> db_error + VaultKey option" where
  "vaultKeys_findFirst e rows u v =
     (if \<not> store_answers e (SelectVaultKey u v) then Inl StatementFailed
      else Inr (List.find (\<lambda>r. vk_userId r = u \<and> vk_vaultId r = v) rows))"

text \<open>\<open>db.insert(vaultKeys).values(row).returning()\<close>, under \<open>vault_keys_user_vault_idx\<close>.\<close>

definition vaultKeys_insert :: "env \<Rightarrow> VaultKey list \<Rightarrow> VaultKey \<Rightarrow> db_error + VaultKey list" where
  "vaultKeys_insert e rows row =
     (if \<not> store_answers e (InsertVaultKey row) then Inl StatementFailed
      else if list_ex (\<lambda>r. vk_userId r = vk_userId row \<and> vk_vaultId r = vk_vaultId row) rows
        then Inl UniqueViolation
      else Inr (rows @ [row]))"

text \<open>
  \<open>db.query.syncLogs.findFirst({ where: eq(userId, u), orderBy: desc(sequence) })\<close>:
  the first row of the user's rows in descending order of sequence.
\<close>

definition syncLogs_findFirst_desc ::
  "env \<Rightarrow> SyncLog list \<Rightarrow> string \<Rightarrow> db_error + SyncLog option" where
  "syncLogs_findFirst_desc e rows u =
     (if \<not> store_answers e (SelectMaxSequence u) then Inl StatementFailed
      else (case sort_key (\<lambda>r. - sl_sequence r) (filter (\<lambda>r. sl_userId r = u) rows) of
              [] \<Rightarrow> Inr None
            | r # _ \<Rightarrow> Inr (Some r)))"

text \<open>
  \<open>db.insert(syncLogs).values(rows).returning(...)\<close>: one INSERT statement for the whole
  batch, under \<open>sync_logs_user_timestamp_idx\<close> (unique on user and timestamp).  A new row
  violates the index when its pair occurs among the stored rows or twice in the batch.
\<close>

definition user_timestamp :: "SyncLog \<Rightarrow> string \<times> string" where
  "user_timestamp r = (sl_userId r, sl_haexTimestamp r)"

definition syncLogs_insert :: "env \<Rightarrow> SyncLog list \<Rightarrow> SyncLog list \<Rightarrow> db_error + SyncLog list" where
  "syncLogs_insert e rows vals =
     (if vals = [] then Inl EmptyValues
      else if \<not> store_answers e (InsertSyncLogs vals) then Inl StatementFailed
      else if \<not> list_all (\<lambda>r. int4 (sl_sequence r)) vals then Inl IntegerOutOfRange
      else if \<not> distinct (map user_timestamp vals)
              \<or> list_ex (\<lambda>r. user_timestamp r \<in> set (map user_timestamp rows)) vals
        then Inl UniqueViolation
      else Inr (rows @ vals))"

text \<open>
  \<open>db.query.syncLogs.findMany({ where: and(...conds), orderBy: sequence, limit })\<close>.
  Rows of equal sequence keep their insertion order.
\<close>

fun holds :: "cond \<Rightarrow> SyncLog \<Rightarrow> bool" where
  "holds (EqUserId u) r = (sl_userId r = u)"
| "holds (EqVaultId v) r = (sl_vaultId r = v)"
| "holds (GtSequence a) r = (a < sl_sequence r)"

fun operand_ok :: "cond \<Rightarrow> bool" where
  "operand_ok (GtSequence a) = int4 a"
| "operand_ok _ = True"

definition syncLogs_findMany ::
  "env \<Rightarrow> SyncLog list \<Rightarrow> cond list \<Rightarrow> int \<Rightarrow> db_error + SyncLog list" where
  "syncLogs_findMany e rows conds lim =
     (if \<not> store_answers e (SelectSyncLogs conds lim) then Inl StatementFailed
      else if \<not> list_all operand_ok conds then Inl IntegerOutOfRange
      else Inr (take (nat lim) (sort_key sl_sequence (filter (\<lambda>r. list_all (\<lambda>c. holds c r) conds) rows))))"

section \<open>middleware/auth.ts\<close>

definition startsWith :: "string \<Rightarrow> string \<Rightarrow> bool" where
  "startsWith s p \<longleftrightarrow> take (length p) s = p"

definition authMiddleware :: "env \<Rightarrow> string option \<Rightarrow> response + UserContext" where
  "authMiddleware e authHeader =
     (case authHeader of
        None \<Rightarrow> Inl (Json (ErrorBody ''Unauthorized - Missing or invalid token'') 401)
      | Some h \<Rightarrow>
          if h = [] \<or> \<not> startsWith h ''Bearer ''
          then Inl (Json (ErrorBody ''Unauthorized - Missing or invalid token'') 401)
          else (case getUser e (drop 7 h) of
                  GetUserThrows \<Rightarrow> Inl (Json (ErrorBody ''Unauthorized - Invalid token'') 401)
                | GetUser user err \<Rightarrow>
                    (case (err, user) of
                       (None, Some u) \<Rightarrow>
                         Inr \<lparr>userId = su_id u, email = su_email u, role = su_role u\<rparr>
                     | _ \<Rightarrow> Inl (Json (ErrorBody ''Unauthorized - Invalid token'') 401))))"

section \<open>routes/sync.ts\<close>

text \<open>The answer of every route's \<open>catch\<close> block.\<close>

definition internal_error :: response where
  "internal_error = Json (ErrorBody ''Internal server error'') 500"

subsection \<open>POST /sync/vault-key\<close>

definition post_vault_key :: "env \<Rightarrow> db \<Rightarrow> UserContext \<Rightarrow> vaultKey_json \<Rightarrow> response \<times> db" where
  "post_vault_key e d user j =
     (if \<not> is_uuid e (vj_vaultId j) then (Json ZodErrorBody 400, d)
      else (case vaultKeys_findFirst e (vaultKeys d) (userId user) (vj_vaultId j) of
        Inl err \<Rightarrow> (internal_error, d)
      | Inr (Some existing) \<Rightarrow>
          (Json (ErrorBody ''Vault key already exists for this vault'') 409, d)
      | Inr None \<Rightarrow>
          (let newVaultKey =
                \<lparr>vk_id = gen_random_uuid e 0, vk_userId = userId user, vk_vaultId = vj_vaultId j,
                 vk_encryptedVaultKey = vj_encryptedVaultKey j, vk_salt = vj_salt j,
                 vk_nonce = vj_nonce j, vk_createdAt = now e, vk_updatedAt = now e\<rparr>
           in (case vaultKeys_insert e (vaultKeys d) newVaultKey of
                 Inl err \<Rightarrow> (internal_error, d)
               | Inr rows \<Rightarrow>
                   (Json (VaultKeyStored ''Vault key stored successfully''
                            (vk_id newVaultKey) (vk_vaultId newVaultKey) (vk_createdAt newVaultKey)) 201,
                    d\<lparr>vaultKeys := rows\<rparr>)))))"

subsection \<open>GET /sync/vault-key/:vaultId\<close>

definition view_of :: "VaultKey \<Rightarrow> vaultKey_view" where
  "view_of k = \<lparr>vv_vaultId = vk_vaultId k, vv_encryptedVaultKey = vk_encryptedVaultKey k,
                vv_salt = vk_salt k, vv_nonce = vk_nonce k, vv_createdAt = vk_createdAt k\<rparr>"

definition get_vault_key :: "env \<Rightarrow> db \<Rightarrow> UserContext \<Rightarrow> string \<Rightarrow> response \<times> db" where
  "get_vault_key e d user vaultId =
     (case vaultKeys_findFirst e (vaultKeys d) (userId user) vaultId of
        Inl err \<Rightarrow> (internal_error, d)
      | Inr None \<Rightarrow> (Json (ErrorBody ''Vault key not found'') 404, d)
      | Inr (Some vaultKey) \<Rightarrow> (Json (VaultKeyBody (view_of vaultKey)) 200, d))"

subsection \<open>POST /sync/push\<close>

text \<open>
  \<open>maxSeqResult?.sequence || 0\<close>: a missing row and a sequence of 0 both give 0.
\<close>

definition currentSequence :: "SyncLog option \<Rightarrow> int" where
  "currentSequence maxSeqResult =
     (case maxSeqResult of
        None \<Rightarrow> 0
      | Some r \<Rightarrow> if sl_sequence r \<noteq> 0 then sl_sequence r else 0)"

text \<open>
  \<open>logs.map((log) => ({ ..., sequence: ++currentSequence }))\<close>: the counter is incremented
  before each use; the index counts the rows for the uuid default.
\<close>

fun push_values :: "env \<Rightarrow> string \<Rightarrow> string \<Rightarrow> int \<Rightarrow> nat \<Rightarrow> log_json list \<Rightarrow> SyncLog list" where
  "push_values e u v cur i [] = []"
| "push_values e u v cur i (log # logs) =
     \<lparr>sl_id = gen_random_uuid e i, sl_userId = u, sl_vaultId = v,
      sl_encryptedData = encryptedData log, sl_nonce = nonce log,
      sl_haexTimestamp = haexTimestamp log, sl_sequence = cur + 1, sl_createdAt = now e\<rparr>
     # push_values e u v (cur + 1) (Suc i) logs"

definition returning :: "SyncLog \<Rightarrow> inserted_log" where
  "returning r = \<lparr>il_id = sl_id r, il_sequence = sl_sequence r,
                  il_haexTimestamp = sl_haexTimestamp r, il_createdAt = sl_createdAt r\<rparr>"

definition post_push :: "env \<Rightarrow> db \<Rightarrow> UserContext \<Rightarrow> pushLogs_json \<Rightarrow> response \<times> db" where
  "post_push e d user j =
     (if \<not> is_uuid e (pj_vaultId j) then (Json ZodErrorBody 400, d)
      else (case syncLogs_findFirst_desc e (syncLogs d) (userId user) of
        Inl err \<Rightarrow> (internal_error, d)
      | Inr maxSeqResult \<Rightarrow>
          (let vals = push_values e (userId user) (pj_vaultId j)
                        (currentSequence maxSeqResult) 0 (pj_logs j)
           in (case syncLogs_insert e (syncLogs d) vals of
                 Inl err \<Rightarrow> (internal_error, d)
               | Inr rows \<Rightarrow>
                   (let insertedLogs = map returning vals
                    in (Json (PushBody ''Logs pushed successfully'' (length insertedLogs)
                                insertedLogs) 200,
                        d\<lparr>syncLogs := rows\<rparr>))))))"

subsection \<open>POST /sync/pull\<close>

definition pulled :: "SyncLog \<Rightarrow> pulled_log" where
  "pulled r = \<lparr>pl_id = sl_id r, pl_encryptedData = sl_encryptedData r, pl_nonce = sl_nonce r,
               pl_haexTimestamp = sl_haexTimestamp r, pl_sequence = sl_sequence r,
               pl_createdAt = sl_createdAt r\<rparr>"

text \<open>\<open>pullLogsSchema\<close>: \<open>limit\<close> is an integer from 1 to 1000, 100 when absent.\<close>

definition parse_limit :: "int option \<Rightarrow> int option" where
  "parse_limit l =
     (case l of
        None \<Rightarrow> Some 100
      | Some n \<Rightarrow> if 1 \<le> n \<and> n \<le> 1000 then Some n else None)"

definition whereConditions :: "string \<Rightarrow> string \<Rightarrow> int option \<Rightarrow> cond list" where
  "whereConditions u v afterSequence =
     [EqUserId u, EqVaultId v]
     @ (case afterSequence of None \<Rightarrow> [] | Some a \<Rightarrow> [GtSequence a])"

definition post_pull :: "env \<Rightarrow> db \<Rightarrow> UserContext \<Rightarrow> pullLogs_json \<Rightarrow> response \<times> db" where
  "post_pull e d user j =
     (if \<not> is_uuid e (qj_vaultId j) then (Json ZodErrorBody 400, d)
      else (case parse_limit (qj_limit j) of
        None \<Rightarrow> (Json ZodErrorBody 400, d)
      | Some limit \<Rightarrow>
          (case syncLogs_findMany e (syncLogs d)
                  (whereConditions (userId user) (qj_vaultId j) (qj_afterSequence j)) (limit + 1) of
             Inl err \<Rightarrow> (internal_error, d)
           | Inr logs \<Rightarrow>
               (let hasMore = (int (length logs) > limit);
                    returnLogs = take (nat limit) logs
                in (Json (PullBody (map pulled returnLogs) hasMore) 200, d)))))"

subsection \<open>The router: \<open>sync.use('/*', authMiddleware)\<close>, then the route\<close>

definition sync :: "env \<Rightarrow> db \<Rightarrow> string option \<Rightarrow> request \<Rightarrow> response \<times> db" where
  "sync e d authHeader req =
     (case authMiddleware e authHeader of
        Inl unauthorized \<Rightarrow> (unauthorized, d)
      | Inr user \<Rightarrow>
          (case req of
             PostVaultKey j \<Rightarrow> post_vault_key e d user j
           | GetVaultKey vaultId \<Rightarrow> get_vault_key e d user vaultId
           | PostPush j \<Rightarrow> post_push e d user j
           | PostPull j \<Rightarrow> post_pull e d user j))"

section \<open>Notions of the specification\<close>

text \<open>
  The user's current maximum sequence across all vaults, 0 when the user has no row.
\<close>

definition max_sequence :: "SyncLog list \<Rightarrow> string \<Rightarrow> int" where
  "max_sequence rows u =
     (let ss = map sl_sequence (filter (\<lambda>r. sl_userId r = u) rows)
      in if ss = [] then 0 else Max (set ss))"

text \<open>
  The entries a successful push reports for a batch, written out: the k-th entry has the
  k-th generated id, the sequence \<open>m + 1 + k\<close> and the k-th submitted timestamp.
\<close>

definition push_entries :: "env \<Rightarrow> int \<Rightarrow> log_json list \<Rightarrow> inserted_log list" where
  "push_entries e m logs =
     map (\<lambda>k. \<lparr>il_id = gen_random_uuid e k, il_sequence = m + 1 + int k,
               il_haexTimestamp = haexTimestamp (logs ! k), il_createdAt = now e\<rparr>)
       [0..<length logs]"

text \<open>
  The batches the store accepts from a user: the store answers the query for the maximum
  and the insert of the rows built from it, the sequences \<open>m + 1, \<dots>, m + n\<close> fit the
  \<open>integer\<close> column, the timestamps of the batch are pairwise distinct, and none of them
  is a timestamp the user already has in the log.
\<close>

definition batch_accepted :: "env \<Rightarrow> SyncLog list \<Rightarrow> string \<Rightarrow> string \<Rightarrow> log_json list \<Rightarrow> bool" where
  "batch_accepted e rows u v logs \<longleftrightarrow>
     store_answers e (SelectMaxSequence u)
     \<and> store_answers e (InsertSyncLogs (push_values e u v (max_sequence rows u) 0 logs))
     \<and> int4 (max_sequence rows u + 1) \<and> int4 (max_sequence rows u + int (length logs))
     \<and> distinct (map haexTimestamp logs)
     \<and> \<not> list_ex (\<lambda>l. (u, haexTimestamp l) \<in> set (map user_timestamp rows)) logs"

text \<open>
  The rows a pull asks for: those of the caller and the vault whose sequence lies above
  \<open>afterSequence\<close>, all of them when it is omitted.  \<open>after_in_range\<close> says that the
  operand, when given, fits the \<open>integer\<close> column it is compared with.  An entry of a
  response belongs to a row when it agrees with the row field by field.
\<close>

definition after_holds :: "int option \<Rightarrow> int \<Rightarrow> bool" where
  "after_holds afterSequence s = (case afterSequence of None \<Rightarrow> True | Some a \<Rightarrow> a < s)"

definition qualifying :: "SyncLog list \<Rightarrow> string \<Rightarrow> string \<Rightarrow> int option \<Rightarrow> SyncLog list" where
  "qualifying rows u v afterSequence =
     filter (\<lambda>r. sl_userId r = u \<and> sl_vaultId r = v \<and> after_holds afterSequence (sl_sequence r)) rows"

definition after_in_range :: "int option \<Rightarrow> bool" where
  "after_in_range afterSequence = (case afterSequence of None \<Rightarrow> True | Some a \<Rightarrow> int4 a)"

definition belongs_to :: "pulled_log \<Rightarrow> SyncLog \<Rightarrow> bool" where
  "belongs_to x r \<longleftrightarrow>
     pl_id x = sl_id r \<and> pl_encryptedData x = sl_encryptedData r \<and> pl_nonce x = sl_nonce r
     \<and> pl_haexTimestamp x = sl_haexTimestamp r \<and> pl_sequence x = sl_sequence r
     \<and> pl_createdAt x = sl_createdAt r"

text \<open>The vault key stored for a user and a vault, the first if there were several.\<close>

definition stored_key :: "VaultKey list \<Rightarrow> string \<Rightarrow> string \<Rightarrow> VaultKey option" where
  "stored_key rows u v = List.find (\<lambda>k. vk_userId k = u \<and> vk_vaultId k = v) rows"

text \<open>
  A history of requests, each with the environment and the header it came with, served
  one after the other.
\<close>

definition serve_all :: "(env \<times> string option \<times> request) list \<Rightarrow> db \<Rightarrow> db" where
  "serve_all steps d = fold (\<lambda>(e, authHeader, req) d'. snd (sync e d' authHeader req)) steps d"

text \<open>
  The two causes of an Unauthorized answer: the header is missing or does not start with
  \<open>Bearer\<close>, or the header is well formed and the provider does not accept the token.
\<close>

definition header_rejected :: "string option \<Rightarrow> bool" where
  "header_rejected authHeader =
     (case authHeader of None \<Rightarrow> True | Some h \<Rightarrow> h = [] \<or> \<not> startsWith h ''Bearer '')"

definition token_rejected :: "env \<Rightarrow> string option \<Rightarrow> bool" where
  "token_rejected e authHeader =
     (case authHeader of
        None \<Rightarrow> False
      | Some h \<Rightarrow>
          h \<noteq> [] \<and> startsWith h ''Bearer '' \<and>
          (case getUser e (drop 7 h) of
             GetUserThrows \<Rightarrow> True
           | GetUser user err \<Rightarrow> err \<noteq> None \<or> user = None))"

text \<open>
  The part of the store that belongs to a user, and what it means for a response body to
  show only that user's rows: every vault key and every log entry in it is the image of a
  stored row whose \<open>userId\<close> is the user's.
\<close>

definition own_rows :: "db \<Rightarrow> string \<Rightarrow> db" where
  "own_rows d a = \<lparr>vaultKeys = filter (\<lambda>k. vk_userId k = a) (vaultKeys d),
                  syncLogs = filter (\<lambda>r. sl_userId r = a) (syncLogs d)\<rparr>"

definition shows_only :: "db \<Rightarrow> string \<Rightarrow> body \<Rightarrow> bool" where
  "shows_only d a b =
     (case b of
        VaultKeyBody view \<Rightarrow>
          list_ex (\<lambda>k. vk_userId k = a \<and> view_of k = view) (vaultKeys d)
      | VaultKeyStored msg i v c \<Rightarrow>
          list_ex (\<lambda>k. vk_userId k = a \<and> vk_id k = i \<and> vk_vaultId k = v \<and> vk_createdAt k = c)
            (vaultKeys d)
      | PushBody msg n entries \<Rightarrow>
          list_all (\<lambda>x. list_ex (\<lambda>r. sl_userId r = a \<and> returning r = x) (syncLogs d)) entries
      | PullBody logs hasMore \<Rightarrow>
          list_all (\<lambda>x. list_ex (\<lambda>r. sl_userId r = a \<and> pulled r = x) (syncLogs d)) logs
      | ErrorBody msg \<Rightarrow> True
      | ZodErrorBody \<Rightarrow> True)"

section \<open>Example data\<close>

text \<open>
  A sample \<open>uuid\<close> test (five groups of 8, 4, 4, 4 and 12 hexadecimal digits), a sample
  identity provider that knows two tokens, a sample store that refuses a log whose
  timestamp is longer than 2700 characters, and a store in which alice's highest sequence
  is 5.
\<close>

definition hex_digit :: "char \<Rightarrow> bool" where
  "hex_digit c \<longleftrightarrow> c \<in> set ''0123456789abcdefABCDEF''"

definition uuid_8_4_4_4_12 :: "string \<Rightarrow> bool" where
  "uuid_8_4_4_4_12 s \<longleftrightarrow>
     map (\<lambda>c. if c = CHR ''-'' then CHR ''-'' else if hex_digit c then CHR ''h'' else CHR ''?'') s
     = ''hhhhhhhh-hhhh-hhhh-hhhh-hhhhhhhhhhhh''"

definition example_env :: env where
  "example_env =
     \<lparr>is_uuid = uuid_8_4_4_4_12,
      getUser = (\<lambda>token.
        if token = ''alice-token''
          then GetUser (Some \<lparr>su_id = ''alice'', su_email = None, su_role = None\<rparr>) None
        else if token = ''bob-token''
          then GetUser (Some \<lparr>su_id = ''bob'', su_email = None, su_role = None\<rparr>) None
        else if token = ''unreachable'' then GetUserThrows
        else GetUser None (Some ''invalid JWT'')),
      gen_random_uuid = (\<lambda>i. ''row-'' @ replicate i (CHR ''+'')),
      now = ''2025-01-01T00:00:00'',
      store_refuses = (\<lambda>st.
        case st of
          InsertSyncLogs vals \<Rightarrow> list_ex (\<lambda>r. 2700 < length (sl_haexTimestamp r)) vals
        | _ \<Rightarrow> False)\<rparr>"

definition alice :: UserContext where
  "alice = \<lparr>userId = ''alice'', email = None, role = None\<rparr>"

definition v1 :: string where
  "v1 = ''11111111-1111-4111-8111-111111111111''"

definition v2 :: string where
  "v2 = ''22222222-2222-4222-8222-222222222222''"

definition example_log :: "string \<Rightarrow> string \<Rightarrow> string \<Rightarrow> string \<Rightarrow> int \<Rightarrow> SyncLog" where
  "example_log i u v t s =
     \<lparr>sl_id = i, sl_userId = u, sl_vaultId = v, sl_encryptedData = ''data-'' @ t,
      sl_nonce = ''nonce-'' @ t, sl_haexTimestamp = t, sl_sequence = s,
      sl_createdAt = ''2024-12-31T00:00:00''\<rparr>"

definition example_db :: db where
  "example_db =
     \<lparr>vaultKeys = [],
      syncLogs = [example_log ''a'' ''alice'' v1 ''t-4'' 4,
                  example_log ''b'' ''bob'' v1 ''t-9'' 9,
                  example_log ''c'' ''alice'' v2 ''t-5'' 5]\<rparr>"

definition example_batch :: pushLogs_json where
  "example_batch =
     \<lparr>pj_vaultId = v1,
      pj_logs = [\<lparr>encryptedData = ''A'', nonce = ''n1'', haexTimestamp = ''t1''\<rparr>,
                 \<lparr>encryptedData = ''B'', nonce = ''n2'', haexTimestamp = ''t2''\<rparr>]\<rparr>"

definition duplicate_batch :: pushLogs_json where
  "duplicate_batch =
     \<lparr>pj_vaultId = v1,
      pj_logs = [\<lparr>encryptedData = ''N'', nonce = ''n0'', haexTimestamp = ''t-new''\<rparr>,
                 \<lparr>encryptedData = ''D'', nonce = ''n5'', haexTimestamp = ''t-5''\<rparr>]\<rparr>"

definition empty_batch :: pushLogs_json where
  "empty_batch = \<lparr>pj_vaultId = v1, pj_logs = []\<rparr>"

definition carol :: UserContext where
  "carol = \<lparr>userId = ''carol'', email = None, role = None\<rparr>"

text \<open>The specification's pull scenario: vault \<open>v1\<close> of alice holds the sequences 6, 7, 8.\<close>

definition pull_db :: db where
  "pull_db =
     \<lparr>vaultKeys = [],
      syncLogs = [example_log ''p8'' ''alice'' v1 ''t-8'' 8,
                  example_log ''p1'' ''bob'' v1 ''t-7'' 7,
                  example_log ''p6'' ''alice'' v1 ''t-6'' 6,
                  example_log ''p9'' ''alice'' v2 ''t-9'' 9,
                  example_log ''p7'' ''alice'' v1 ''t-7'' 7]\<rparr>"

definition example_pull :: pullLogs_json where
  "example_pull = \<lparr>qj_vaultId = v1, qj_afterSequence = Some 6, qj_limit = Some 1\<rparr>"

text \<open>Two bodies for the same vault with different contents, and a later environment.\<close>

definition example_key :: vaultKey_json where
  "example_key = \<lparr>vj_vaultId = v1, vj_encryptedVaultKey = ''key-1'', vj_salt = ''salt-1'',
                   vj_nonce = ''nonce-1''\<rparr>"

definition other_key :: vaultKey_json where
  "other_key = \<lparr>vj_vaultId = v1, vj_encryptedVaultKey = ''key-2'', vj_salt = ''salt-2'',
                 vj_nonce = ''nonce-2''\<rparr>"

definition later_env :: env where
  "later_env = example_env\<lparr>gen_random_uuid := (\<lambda>i. ''later-'' @ replicate i (CHR ''+'')),
                            now := ''2025-02-02T00:00:00''\<rparr>"

text \<open>A store holding a vault key of alice whose vault id is not a uuid.\<close>

definition legacy_db :: db where
  "legacy_db =
     \<lparr>vaultKeys = [\<lparr>vk_id = ''k1'', vk_userId = ''alice'', vk_vaultId = ''my vault'',
                     vk_encryptedVaultKey = ''key-0'', vk_salt = ''salt-0'', vk_nonce = ''nonce-0'',
                     vk_createdAt = ''2024-01-01T00:00:00'', vk_updatedAt = ''2024-01-01T00:00:00''\<rparr>],
      syncLogs = []\<rparr>"

definition legacy_key :: vaultKey_json where
  "legacy_key = \<lparr>vj_vaultId = ''my vault'', vj_encryptedVaultKey = ''key-9'', vj_salt = ''salt-9'',
                  vj_nonce = ''nonce-9''\<rparr>"

text \<open>
  Bob's part of the pull scenario, and a pull by which bob asks for alice's vault.
\<close>

definition bob_only_db :: db where
  "bob_only_db = \<lparr>vaultKeys = [], syncLogs = [example_log ''p1'' ''bob'' v1 ''t-7'' 7]\<rparr>"

definition crafted_pull :: pullLogs_json where
  "crafted_pull = \<lparr>qj_vaultId = v1, qj_afterSequence = None, qj_limit = None\<rparr>"

text \<open>
  Requests that pass validation and that the store does not take: a log and a vault key
  whose contents are the character U+0000, a pull from a sequence beyond the 32-bit
  range, and the vault id U+0000 for the read route.
\<close>

definition nul_batch :: pushLogs_json where
  "nul_batch =
     \<lparr>pj_vaultId = v1,
      pj_logs = [\<lparr>encryptedData = [CHR 0x00], nonce = ''n1'', haexTimestamp = ''t1''\<rparr>]\<rparr>"

definition nul_key :: vaultKey_json where
  "nul_key = \<lparr>vj_vaultId = v1, vj_encryptedVaultKey = [CHR 0x00], vj_salt = ''salt-1'',
               vj_nonce = ''nonce-1''\<rparr>"

definition big_pull :: pullLogs_json where
  "big_pull = \<lparr>qj_vaultId = v1, qj_afterSequence = Some 2147483648, qj_limit = Some 1\<rparr>"

definition nul_vault :: string where
  "nul_vault = [CHR 0x00]"

section \<open>Sequence assignment\<close>

lemma push_values_length: "length (push_values e u v cur i logs) = length logs"
  by (induction logs arbitrary: cur i) auto

lemma push_values_owner:
  "r \<in> set (push_values e u v cur i logs) \<Longrightarrow> sl_userId r = u \<and> sl_vaultId r = v"
  by (induction logs arbitrary: cur i) auto

lemma upt_Suc_shift: "map f [0..<Suc n] = f 0 # map (\<lambda>k. f (Suc k)) [0..<n]"
proof -
  have "[0..<Suc n] = 0 # map Suc [0..<n]"
    by (simp add: upt_conv_Cons map_Suc_upt del: upt_Suc)
  then show ?thesis by (simp add: comp_def del: upt_Suc)
qed

lemma push_values_sequence:
  "map sl_sequence (push_values e u v cur i logs) = map (\<lambda>k. cur + 1 + int k) [0..<length logs]"
proof (induction logs arbitrary: cur i)
  case Nil
  then show ?case by simp
next
  case (Cons log logs)
  have "map sl_sequence (push_values e u v cur i (log # logs))
        = (cur + 1) # map (\<lambda>k. (cur + 1) + 1 + int k) [0..<length logs]"
    using Cons.IH [of "cur + 1" "Suc i"] by simp
  also have "\<dots> = map (\<lambda>k. cur + 1 + int k) [0..<Suc (length logs)]"
    by (simp add: upt_Suc_shift add.assoc del: upt_Suc)
  finally show ?case by simp
qed

lemma push_values_returning:
  "map returning (push_values e u v cur i logs)
   = map (\<lambda>k. \<lparr>il_id = gen_random_uuid e (i + k), il_sequence = cur + 1 + int k,
                 il_haexTimestamp = haexTimestamp (logs ! k), il_createdAt = now e\<rparr>)
       [0..<length logs]"
proof (induction logs arbitrary: cur i)
  case Nil
  then show ?case by simp
next
  case (Cons log logs)
  show ?case
    using Cons.IH [of "cur + 1" "Suc i"]
    by (simp add: upt_Suc_shift returning_def add.assoc del: upt_Suc)
qed

lemma push_values_keys:
  "map user_timestamp (push_values e u v cur i logs) = map (\<lambda>l. (u, haexTimestamp l)) logs"
  by (induction logs arbitrary: cur i) (auto simp: user_timestamp_def)

lemma push_values_timestamps:
  "map sl_haexTimestamp (push_values e u v cur i logs) = map haexTimestamp logs"
  by (induction logs arbitrary: cur i) auto

lemma distinct_keys:
  "distinct (map (\<lambda>l. (u, haexTimestamp l)) logs) = distinct (map haexTimestamp logs)"
  by (simp add: distinct_map inj_on_def)

lemma upto_as_upt: "map (\<lambda>k. m + 1 + int k) [0..<n] = [m + 1 .. m + int n]"
proof (induction n)
  case 0
  then show ?case by simp
next
  case (Suc n)
  have "[m + 1 .. m + int n + 1] = [m + 1 .. m + int n] @ [m + int n + 1]"
    using upto_rec2 [of "m + 1" "m + int n + 1"] by simp
  moreover have "m + int (Suc n) = m + int n + 1" by simp
  ultimately show ?case using Suc by (simp add: algebra_simps)
qed

text \<open>The row the route reads the counter from holds the user's maximum.\<close>

lemma findFirst_desc_refused:
  "\<not> store_answers e (SelectMaxSequence u) \<Longrightarrow> syncLogs_findFirst_desc e rows u = Inl StatementFailed"
  by (simp add: syncLogs_findFirst_desc_def)

lemma findFirst_desc_answered:
  "store_answers e (SelectMaxSequence u) \<Longrightarrow> \<exists>x. syncLogs_findFirst_desc e rows u = Inr x"
  by (simp add: syncLogs_findFirst_desc_def split: list.split)

lemma currentSequence_is_max:
  assumes "syncLogs_findFirst_desc e rows u = Inr x"
  shows "currentSequence x = max_sequence rows u"
proof -
  let ?own = "filter (\<lambda>r. sl_userId r = u) rows"
  let ?ys = "sort_key (\<lambda>r. - sl_sequence r) ?own"
  show ?thesis
  proof (cases ?ys)
    case Nil
    then have "length ?own = 0" by (metis length_sort list.size(3))
    then have own: "?own = []" by simp
    have "x = None"
      using assms Nil by (simp add: syncLogs_findFirst_desc_def split: if_splits)
    with own show ?thesis
      by (simp add: currentSequence_def max_sequence_def)
  next
    case (Cons r rest)
    have x: "x = Some r"
      using assms Cons by (simp add: syncLogs_findFirst_desc_def split: if_splits)
    have srt: "sorted (map (\<lambda>r. - sl_sequence r) ?ys)" by (rule sorted_sort_key)
    have mem: "set ?ys = set ?own" by simp
    have r_in: "r \<in> set ?own" using Cons mem by (metis list.set_intros(1))
    have top: "\<forall>y \<in> set ?own. sl_sequence y \<le> sl_sequence r"
      using srt Cons mem
      by (metis (no_types, lifting) list.simps(9) neg_le_iff_le set_ConsD sorted_simps(2)
          imageI order_refl list.set_map)
    have ne: "?own \<noteq> []" using r_in length_pos_if_in_set by fastforce
    have "Max (set (map sl_sequence ?own)) = sl_sequence r"
      using top r_in by (intro Max_eqI) auto
    with ne x show ?thesis
      by (simp add: currentSequence_def max_sequence_def)
  qed
qed

lemma push_values_int4:
  "list_all (\<lambda>r. int4 (sl_sequence r)) (push_values e u v cur i logs)
   \<longleftrightarrow> logs = [] \<or> (int4 (cur + 1) \<and> int4 (cur + int (length logs)))"
proof -
  have "list_all (\<lambda>r. int4 (sl_sequence r)) (push_values e u v cur i logs)
        \<longleftrightarrow> list_all int4 (map sl_sequence (push_values e u v cur i logs))"
    by (simp add: list_all_iff)
  also have "\<dots> \<longleftrightarrow> (\<forall>k < length logs. int4 (cur + 1 + int k))"
    by (auto simp: push_values_sequence list_all_iff)
  also have "\<dots> \<longleftrightarrow> logs = [] \<or> (int4 (cur + 1) \<and> int4 (cur + int (length logs)))"
  proof (cases logs)
    case Nil
    then show ?thesis by simp
  next
    case (Cons l ls)
    have "(\<forall>k < Suc (length ls). int4 (cur + 1 + int k))
          \<longleftrightarrow> int4 (cur + 1) \<and> int4 (cur + 1 + int (length ls))"
    proof
      assume a: "\<forall>k < Suc (length ls). int4 (cur + 1 + int k)"
      from a have "int4 (cur + 1 + int 0)" by blast
      moreover from a have "int4 (cur + 1 + int (length ls))" by blast
      ultimately show "int4 (cur + 1) \<and> int4 (cur + 1 + int (length ls))" by simp
    next
      assume "int4 (cur + 1) \<and> int4 (cur + 1 + int (length ls))"
      then show "\<forall>k < Suc (length ls). int4 (cur + 1 + int k)"
        by (auto simp: int4_def)
    qed
    with Cons show ?thesis by (simp add: algebra_simps)
  qed
  finally show ?thesis .
qed

text \<open>What the insert of a push decides, in terms of the submitted batch.\<close>

lemma syncLogs_insert_push_values:
  "syncLogs_insert e rows (push_values e' u v cur i logs)
   = (if logs = [] then Inl EmptyValues
      else if \<not> store_answers e (InsertSyncLogs (push_values e' u v cur i logs))
        then Inl StatementFailed
      else if \<not> (int4 (cur + 1) \<and> int4 (cur + int (length logs))) then Inl IntegerOutOfRange
      else if \<not> distinct (map haexTimestamp logs)
              \<or> list_ex (\<lambda>l. (u, haexTimestamp l) \<in> set (map user_timestamp rows)) logs
        then Inl UniqueViolation
      else Inr (rows @ push_values e' u v cur i logs))"
proof -
  let ?vals = "push_values e' u v cur i logs"
  have e: "?vals = [] \<longleftrightarrow> logs = []"
    using push_values_length [of e' u v cur i logs] by (metis length_0_conv)
  have k: "list_ex (\<lambda>r. user_timestamp r \<in> set (map user_timestamp rows)) ?vals
           \<longleftrightarrow> list_ex (\<lambda>l. (u, haexTimestamp l) \<in> set (map user_timestamp rows)) logs"
  proof -
    have "list_ex (\<lambda>r. user_timestamp r \<in> set (map user_timestamp rows)) ?vals
          \<longleftrightarrow> (\<exists>x \<in> set (map user_timestamp ?vals). x \<in> set (map user_timestamp rows))"
      by (simp add: list_ex_iff)
    also have "\<dots> \<longleftrightarrow> (\<exists>x \<in> set (map (\<lambda>l. (u, haexTimestamp l)) logs).
                              x \<in> set (map user_timestamp rows))"
      by (simp only: push_values_keys)
    also have "\<dots> \<longleftrightarrow> list_ex (\<lambda>l. (u, haexTimestamp l) \<in> set (map user_timestamp rows)) logs"
      by (simp add: list_ex_iff)
    finally show ?thesis .
  qed
  have d: "distinct (map user_timestamp ?vals) \<longleftrightarrow> distinct (map haexTimestamp logs)"
    by (simp only: push_values_keys distinct_keys)
  show ?thesis
    unfolding syncLogs_insert_def e k d push_values_int4 by simp
qed

lemma returning_push_values:
  "map returning (push_values e u v m 0 logs) = push_entries e m logs"
  by (simp add: push_values_returning push_entries_def)

lemma length_push_entries: "length (push_entries e m logs) = length logs"
  by (simp add: push_entries_def)

lemma push_entries_sequence:
  "map il_sequence (push_entries e m logs) = [m + 1 .. m + int (length logs)]"
  by (simp add: push_entries_def comp_def upto_as_upt)

lemma push_entries_timestamps:
  "map il_haexTimestamp (push_entries e m logs) = map haexTimestamp logs"
proof -
  have "map haexTimestamp (map (\<lambda>k. logs ! k) [0..<length logs]) = map haexTimestamp logs"
    by (simp only: map_nth)
  then show ?thesis by (simp add: push_entries_def comp_def)
qed

lemma push_entries_ids:
  "map il_id (push_entries e m logs) = map (gen_random_uuid e) [0..<length logs]"
  by (simp add: push_entries_def comp_def)

text \<open>The outcome of a push whose body passes validation, in every case.\<close>

lemma post_push_cases:
  assumes "is_uuid e (pj_vaultId j)"
  shows "post_push e d user j =
     (if pj_logs j \<noteq> []
         \<and> batch_accepted e (syncLogs d) (userId user) (pj_vaultId j) (pj_logs j)
      then (Json (PushBody ''Logs pushed successfully'' (length (pj_logs j))
                    (push_entries e (max_sequence (syncLogs d) (userId user)) (pj_logs j))) 200,
            d\<lparr>syncLogs := syncLogs d @ push_values e (userId user) (pj_vaultId j)
                                         (max_sequence (syncLogs d) (userId user)) 0 (pj_logs j)\<rparr>)
      else (internal_error, d))"
proof (cases "store_answers e (SelectMaxSequence (userId user))")
  case False
  then have "post_push e d user j = (internal_error, d)"
    using assms by (simp add: post_push_def findFirst_desc_refused)
  with False show ?thesis by (simp add: batch_accepted_def)
next
  case True
  then obtain x where x: "syncLogs_findFirst_desc e (syncLogs d) (userId user) = Inr x"
    using findFirst_desc_answered by blast
  then have cur: "currentSequence x = max_sequence (syncLogs d) (userId user)"
    by (rule currentSequence_is_max)
  show ?thesis
    using assms True
    by (auto simp: post_push_def x cur Let_def syncLogs_insert_push_values returning_push_values
          length_push_entries batch_accepted_def)
qed

section \<open>Push\<close>

text \<open>
  Claim C1, as the code has it.  For every push of a non-empty batch whose body passes
  validation, the counter the route reads is the user's maximum sequence \<open>m\<close> over all
  vaults, and the rows built for the insert carry, in submission order, the sequences
  \<open>m + 1, \<dots>, m + n\<close> and the submitted timestamps.  When the store accepts the batch,
  the answer has status 200, \<open>count = n\<close> and one entry per row in that order: the k-th
  entry carries the k-th generated id, the sequence \<open>m + 1 + k\<close>, the k-th submitted
  timestamp and the creation time, and the rows are appended to the log.  Otherwise the
  answer is the 500 of the catch block and the store is as before.
\<close>

theorem push_assigns_consecutive_sequences:
  assumes "is_uuid e (pj_vaultId j)"
    and "logs = pj_logs j"
    and "logs \<noteq> []"
    and "m = max_sequence (syncLogs d) (userId user)"
    and "vals = push_values e (userId user) (pj_vaultId j) m 0 logs"
  shows "(\<forall>x. syncLogs_findFirst_desc e (syncLogs d) (userId user) = Inr x \<longrightarrow> currentSequence x = m)
         \<and> map sl_sequence vals = [m + 1 .. m + int (length logs)]
         \<and> map sl_haexTimestamp vals = map haexTimestamp logs
         \<and> post_push e d user j =
             (if batch_accepted e (syncLogs d) (userId user) (pj_vaultId j) logs
              then (Json (PushBody ''Logs pushed successfully'' (length logs)
                            (push_entries e m logs)) 200,
                    d\<lparr>syncLogs := syncLogs d @ vals\<rparr>)
              else (Json (ErrorBody ''Internal server error'') 500, d))
         \<and> map il_sequence (push_entries e m logs) = [m + 1 .. m + int (length logs)]
         \<and> map il_haexTimestamp (push_entries e m logs) = map haexTimestamp logs
         \<and> map il_id (push_entries e m logs) = map (gen_random_uuid e) [0..<length logs]
         \<and> list_all (\<lambda>x. il_createdAt x = now e) (push_entries e m logs)"
proof -
  have cur: "\<forall>x. syncLogs_findFirst_desc e (syncLogs d) (userId user) = Inr x \<longrightarrow> currentSequence x = m"
    by (simp add: currentSequence_is_max assms(4))
  have seqs: "map sl_sequence vals = [m + 1 .. m + int (length logs)]"
    by (simp add: assms(5) push_values_sequence upto_as_upt)
  have stamps: "map sl_haexTimestamp vals = map haexTimestamp logs"
    by (simp add: assms(5) push_values_timestamps)
  have ne: "pj_logs j \<noteq> []" using assms(2,3) by simp
  have push: "post_push e d user j =
             (if batch_accepted e (syncLogs d) (userId user) (pj_vaultId j) logs
              then (Json (PushBody ''Logs pushed successfully'' (length logs)
                            (push_entries e m logs)) 200,
                    d\<lparr>syncLogs := syncLogs d @ vals\<rparr>)
              else (Json (ErrorBody ''Internal server error'') 500, d))"
    using ne
    unfolding assms(5) assms(4) assms(2) post_push_cases [OF assms(1)] internal_error_def
    by simp
  have created: "list_all (\<lambda>x. il_createdAt x = now e) (push_entries e m logs)"
    by (simp add: push_entries_def list_all_iff)
  show ?thesis
    using cur seqs stamps push created
    by (simp only: push_entries_sequence push_entries_timestamps push_entries_ids simp_thms)
qed

text \<open>The specification's scenario: the maximum is 5, two logs are pushed, they get 6 and 7.\<close>

lemma example_max: "max_sequence (syncLogs example_db) ''alice'' = 5"
  by (simp add: max_sequence_def example_db_def example_log_def)

lemma v1_uuid: "uuid_8_4_4_4_12 v1"
  by (simp add: uuid_8_4_4_4_12_def v1_def hex_digit_def)

lemma v1_no_nul: "CHR 0x00 \<notin> set v1"
  by (simp add: v1_def)

lemma example_select_answered: "store_answers example_env (SelectMaxSequence u)"
  by (simp add: store_answers_def example_env_def)

lemma example_batch_accepted:
  "batch_accepted example_env (syncLogs example_db) ''alice'' (pj_vaultId example_batch)
     (pj_logs example_batch)"
  unfolding batch_accepted_def example_max
  by (simp add: example_select_answered store_answers_def v1_no_nul text_ok_def int4_def
        example_batch_def example_env_def example_db_def example_log_def user_timestamp_def)

theorem push_assigns_consecutive_sequences_witness:
  "fst (post_push example_env example_db alice example_batch)
     = Json (PushBody ''Logs pushed successfully'' 2
         [\<lparr>il_id = ''row-'', il_sequence = 6, il_haexTimestamp = ''t1'',
           il_createdAt = ''2025-01-01T00:00:00''\<rparr>,
          \<lparr>il_id = ''row-+'', il_sequence = 7, il_haexTimestamp = ''t2'',
           il_createdAt = ''2025-01-01T00:00:00''\<rparr>]) 200
   \<and> map sl_sequence (syncLogs (snd (post_push example_env example_db alice example_batch)))
     = [4, 9, 5, 6, 7]"
proof -
  let ?vals = "push_values example_env (userId alice) (pj_vaultId example_batch) 5 0
                 (pj_logs example_batch)"
  have m: "5 = max_sequence (syncLogs example_db) (userId alice)"
    by (simp add: example_max alice_def)
  have u: "is_uuid example_env (pj_vaultId example_batch)"
    by (simp add: example_env_def example_batch_def v1_uuid)
  have ne: "pj_logs example_batch \<noteq> []" by (simp add: example_batch_def)
  have acc: "batch_accepted example_env (syncLogs example_db) (userId alice)
               (pj_vaultId example_batch) (pj_logs example_batch)"
    using example_batch_accepted by (simp add: alice_def)
  note th = push_assigns_consecutive_sequences [OF u refl ne m refl]
  have seqs: "map sl_sequence ?vals = [5 + 1 .. 5 + int (length (pj_logs example_batch))]"
    using th by blast
  have push: "post_push example_env example_db alice example_batch
      = (Json (PushBody ''Logs pushed successfully'' (length (pj_logs example_batch))
                 (push_entries example_env 5 (pj_logs example_batch))) 200,
         example_db\<lparr>syncLogs := syncLogs example_db @ ?vals\<rparr>)"
    using th acc by simp
  have six_seven: "[5 + 1 .. 5 + int (length (pj_logs example_batch))] = [6, 7]"
    by (simp add: example_batch_def upto_rec1)
  have entries: "push_entries example_env 5 (pj_logs example_batch)
      = [\<lparr>il_id = ''row-'', il_sequence = 6, il_haexTimestamp = ''t1'',
           il_createdAt = ''2025-01-01T00:00:00''\<rparr>,
          \<lparr>il_id = ''row-+'', il_sequence = 7, il_haexTimestamp = ''t2'',
           il_createdAt = ''2025-01-01T00:00:00''\<rparr>]"
    by (simp add: push_entries_def example_batch_def example_env_def
          upt_rec [of 0] upt_rec [of 1] upt_rec [of 2])
  have stored: "map sl_sequence (syncLogs example_db) = [4, 9, 5]"
    by (simp add: example_db_def example_log_def)
  have len: "length (pj_logs example_batch) = 2" by (simp add: example_batch_def)
  have f: "fst (post_push example_env example_db alice example_batch)
      = Json (PushBody ''Logs pushed successfully'' (length (pj_logs example_batch))
                 (push_entries example_env 5 (pj_logs example_batch))) 200"
    by (simp add: push)
  have g: "map sl_sequence (syncLogs (snd (post_push example_env example_db alice example_batch)))
      = map sl_sequence (syncLogs example_db) @ map sl_sequence ?vals"
    by (simp add: push)
  show ?thesis
    unfolding f g len entries seqs six_seven stored by simp
qed

text \<open>
  The claim C1 as stated fails: a validated batch of one log whose data is the character
  U+0000 is not answered with a count and entries; the insert fails, the answer is 500
  and nothing is stored.
\<close>

theorem push_batch_not_always_reported:
  "pj_logs nul_batch \<noteq> []
   \<and> is_uuid example_env (pj_vaultId nul_batch)
   \<and> post_push example_env example_db alice nul_batch
       = (Json (ErrorBody ''Internal server error'') 500, example_db)"
proof -
  have u: "is_uuid example_env (pj_vaultId nul_batch)"
    by (simp add: example_env_def nul_batch_def v1_uuid)
  have ne: "pj_logs nul_batch \<noteq> []" by (simp add: nul_batch_def)
  have "\<not> batch_accepted example_env (syncLogs example_db) (userId alice) (pj_vaultId nul_batch)
            (pj_logs nul_batch)"
    by (simp add: batch_accepted_def store_answers_def nul_batch_def text_ok_def)
  then have "post_push example_env example_db alice nul_batch = (internal_error, example_db)"
    using u by (simp add: post_push_cases)
  with u ne show ?thesis by (simp add: internal_error_def)
qed

lemma max_sequence_no_rows:
  "\<forall>r \<in> set rows. sl_userId r \<noteq> u \<Longrightarrow> max_sequence rows u = 0"
proof -
  assume "\<forall>r \<in> set rows. sl_userId r \<noteq> u"
  then have "filter (\<lambda>r. sl_userId r = u) rows = []"
    by (simp add: filter_empty_conv)
  then show ?thesis by (simp add: max_sequence_def)
qed

lemma insert_answered_fits:
  assumes "store_answers e (InsertSyncLogs vals)"
  shows "int (length vals) \<le> 2147483647"
proof -
  have "6 * length vals \<le> 65534"
    using assms by (simp add: store_answers_def)
  then show ?thesis by simp
qed

text \<open>
  Claim C9.  For a user with no row in the log the query for the maximum, when the store
  answers it, finds nothing; the counter starts from 0, the absent maximum; and the first
  row built from a non-empty batch gets the sequence 1, as does the first entry reported
  for it.  The push is answered with 200, that entry first, and the rows are appended,
  when the store answers both statements and the timestamps of the batch are pairwise
  distinct; otherwise it is answered with the 500 of the catch block and nothing is
  stored.
\<close>

theorem first_push_starts_at_one:
  assumes "is_uuid e (pj_vaultId j)"
    and "logs = pj_logs j"
    and "logs \<noteq> []"
    and "\<forall>r \<in> set (syncLogs d). sl_userId r \<noteq> userId user"
    and "vals = push_values e (userId user) (pj_vaultId j) (currentSequence None) 0 logs"
  shows "(store_answers e (SelectMaxSequence (userId user))
            \<longrightarrow> syncLogs_findFirst_desc e (syncLogs d) (userId user) = Inr None)
         \<and> currentSequence None = 0
         \<and> sl_sequence (hd vals) = 1
         \<and> il_sequence (hd (map returning vals)) = 1
         \<and> post_push e d user j =
             (if store_answers e (SelectMaxSequence (userId user))
                 \<and> store_answers e (InsertSyncLogs vals)
                 \<and> distinct (map haexTimestamp logs)
              then (Json (PushBody ''Logs pushed successfully'' (length logs) (map returning vals)) 200,
                    d\<lparr>syncLogs := syncLogs d @ vals\<rparr>)
              else (Json (ErrorBody ''Internal server error'') 500, d))"
proof -
  have own: "filter (\<lambda>r. sl_userId r = userId user) (syncLogs d) = []"
    using assms(4) by (simp add: filter_empty_conv)
  have none: "store_answers e (SelectMaxSequence (userId user))
            \<longrightarrow> syncLogs_findFirst_desc e (syncLogs d) (userId user) = Inr None"
    by (simp add: syncLogs_findFirst_desc_def own)
  have cur: "currentSequence None = 0"
    by (simp add: currentSequence_def)
  have m: "max_sequence (syncLogs d) (userId user) = 0"
    using assms(4) by (rule max_sequence_no_rows)
  have vals: "vals = push_values e (userId user) (pj_vaultId j) 0 0 logs"
    by (simp add: assms(5) cur)
  obtain l ls where l: "logs = l # ls" using assms(3) by (cases logs) auto
  have h1: "sl_sequence (hd vals) = 1"
    unfolding vals l by simp
  have h2: "il_sequence (hd (map returning vals)) = 1"
    unfolding vals l by (simp add: returning_def)
  have fresh: "\<not> list_ex (\<lambda>l. (userId user, haexTimestamp l) \<in> set (map user_timestamp (syncLogs d))) logs"
    using assms(4) by (auto simp: list_ex_iff user_timestamp_def)
  have len: "length vals = length logs" by (simp add: vals push_values_length)
  have fit: "store_answers e (InsertSyncLogs vals) \<Longrightarrow> int4 (0 + 1) \<and> int4 (0 + int (length logs))"
    using insert_answered_fits [of e vals] by (simp add: int4_def len)
  have acc: "batch_accepted e (syncLogs d) (userId user) (pj_vaultId j) logs
             \<longleftrightarrow> store_answers e (SelectMaxSequence (userId user))
                 \<and> store_answers e (InsertSyncLogs vals)
                 \<and> distinct (map haexTimestamp logs)"
    using fresh fit by (auto simp: batch_accepted_def m vals)
  have ne: "pj_logs j \<noteq> []" using assms(2,3) by simp
  have push0: "post_push e d user j =
     (if batch_accepted e (syncLogs d) (userId user) (pj_vaultId j) logs
      then (Json (PushBody ''Logs pushed successfully'' (length logs) (push_entries e 0 logs)) 200,
            d\<lparr>syncLogs := syncLogs d @ vals\<rparr>)
      else (internal_error, d))"
    using ne unfolding vals assms(2) post_push_cases [OF assms(1)] m by simp
  have ret: "map returning vals = push_entries e 0 logs"
    by (simp add: vals returning_push_values)
  have push: "post_push e d user j =
             (if store_answers e (SelectMaxSequence (userId user))
                 \<and> store_answers e (InsertSyncLogs vals)
                 \<and> distinct (map haexTimestamp logs)
              then (Json (PushBody ''Logs pushed successfully'' (length logs) (map returning vals)) 200,
                    d\<lparr>syncLogs := syncLogs d @ vals\<rparr>)
              else (Json (ErrorBody ''Internal server error'') 500, d))"
    unfolding push0 acc ret internal_error_def by simp
  show ?thesis
    using none cur h1 h2 push by blast
qed

theorem first_push_starts_at_one_witness:
  "currentSequence None = 0
   \<and> map il_sequence (case body (fst (post_push example_env example_db carol example_batch)) of
        PushBody msg n entries \<Rightarrow> entries | _ \<Rightarrow> []) = [1, 2]"
proof -
  let ?vals = "push_values example_env (userId carol) (pj_vaultId example_batch)
                 (currentSequence None) 0 (pj_logs example_batch)"
  have u: "is_uuid example_env (pj_vaultId example_batch)"
    by (simp add: example_env_def example_batch_def v1_uuid)
  have ne: "pj_logs example_batch \<noteq> []" by (simp add: example_batch_def)
  have none: "\<forall>r \<in> set (syncLogs example_db). sl_userId r \<noteq> userId carol"
    by (simp add: example_db_def example_log_def carol_def)
  note th = first_push_starts_at_one [OF u refl ne none refl]
  from th have a: "currentSequence None = 0" by blast
  have ok: "store_answers example_env (SelectMaxSequence (userId carol))
            \<and> store_answers example_env (InsertSyncLogs ?vals)
            \<and> distinct (map haexTimestamp (pj_logs example_batch))"
    by (simp add: example_select_answered a store_answers_def v1_no_nul text_ok_def
          example_batch_def example_env_def)
  from th ok have b: "post_push example_env example_db carol example_batch =
             (Json (PushBody ''Logs pushed successfully'' (length (pj_logs example_batch))
                (map returning ?vals)) 200,
              example_db\<lparr>syncLogs := syncLogs example_db @ ?vals\<rparr>)"
    by simp
  have c: "map il_sequence (case body (fst (post_push example_env example_db carol example_batch)) of
        PushBody msg n entries \<Rightarrow> entries | _ \<Rightarrow> [])
      = map il_sequence (map returning ?vals)"
    by (simp add: b)
  have "map il_sequence (map returning ?vals) = [1, 2]"
    by (simp add: a example_batch_def returning_def)
  with a c show ?thesis by simp
qed

text \<open>
  Claim C3, as the code has it.  When an entry of the batch repeats a timestamp the user
  already has in the log, the push fails and commits nothing: the store is returned as it
  was.  A body that passed validation is answered with status 500 and the generic message
  of the route's catch block (a body that did not, with the validator's 400); the route
  has no answer with status 409.
\<close>

theorem push_duplicate_timestamp_rejected:
  assumes "\<exists>l \<in> set (pj_logs j).
             (userId user, haexTimestamp l) \<in> set (map user_timestamp (syncLogs d))"
  shows "post_push e d user j =
           (if is_uuid e (pj_vaultId j) then Json (ErrorBody ''Internal server error'') 500
            else Json ZodErrorBody 400,
            d)"
proof (cases "is_uuid e (pj_vaultId j)")
  case True
  have "list_ex (\<lambda>l. (userId user, haexTimestamp l) \<in> set (map user_timestamp (syncLogs d))) (pj_logs j)"
    using assms by (simp add: list_ex_iff)
  then have "post_push e d user j = (internal_error, d)"
    using True by (simp add: post_push_cases batch_accepted_def)
  with True show ?thesis by (simp add: internal_error_def)
next
  case False
  then show ?thesis by (simp add: post_push_def)
qed

lemma duplicate_batch_dup:
  "\<exists>l \<in> set (pj_logs duplicate_batch).
      (userId alice, haexTimestamp l) \<in> set (map user_timestamp (syncLogs example_db))"
  by (simp add: duplicate_batch_def alice_def example_db_def example_log_def user_timestamp_def)

theorem push_duplicate_timestamp_rejected_witness:
  "post_push example_env example_db alice duplicate_batch
   = (Json (ErrorBody ''Internal server error'') 500, example_db)"
proof -
  have u: "is_uuid example_env (pj_vaultId duplicate_batch)"
    by (simp add: example_env_def duplicate_batch_def v1_uuid)
  from push_duplicate_timestamp_rejected [OF duplicate_batch_dup, of example_env] u
  show ?thesis by simp
qed

text \<open>
  The claim C3 as stated fails: a batch holding a new timestamp and alice's \<open>t-5\<close> is
  not answered with Conflict (409).
\<close>

theorem push_duplicate_not_conflict:
  "''t-5'' \<in> set (map haexTimestamp (pj_logs duplicate_batch))
   \<and> (userId alice, ''t-5'') \<in> set (map user_timestamp (syncLogs example_db))
   \<and> fst (post_push example_env example_db alice duplicate_batch)
       = Json (ErrorBody ''Internal server error'') 500
   \<and> status (fst (post_push example_env example_db alice duplicate_batch)) \<noteq> 409"
proof -
  have u: "is_uuid example_env (pj_vaultId duplicate_batch)"
    by (simp add: example_env_def duplicate_batch_def v1_uuid)
  have dup: "list_ex (\<lambda>l. (userId alice, haexTimestamp l) \<in> set (map user_timestamp (syncLogs example_db)))
     (pj_logs duplicate_batch)"
    using duplicate_batch_dup by (simp add: list_ex_iff)
  then have r: "post_push example_env example_db alice duplicate_batch = (internal_error, example_db)"
    using u by (simp add: post_push_cases batch_accepted_def)
  have a: "''t-5'' \<in> set (map haexTimestamp (pj_logs duplicate_batch))"
    by (simp add: duplicate_batch_def)
  have b: "(userId alice, ''t-5'') \<in> set (map user_timestamp (syncLogs example_db))"
    by (simp add: alice_def example_db_def example_log_def user_timestamp_def)
  show ?thesis using a b by (simp add: r internal_error_def)
qed

text \<open>
  Claim C4.  The schema admits an empty \<open>logs\<close> array, \<open>values([])\<close> throws, and the
  catch block answers 500: an empty batch is not a success with \<open>count = 0\<close>.  The store
  is left as it was.
\<close>

theorem push_empty_batch_internal_error:
  "post_push example_env example_db alice empty_batch
   = (Json (ErrorBody ''Internal server error'') 500, example_db)"
proof -
  have u: "is_uuid example_env (pj_vaultId empty_batch)"
    by (simp add: example_env_def empty_batch_def v1_uuid)
  have "pj_logs empty_batch = []" by (simp add: empty_batch_def)
  then have "post_push example_env example_db alice empty_batch = (internal_error, example_db)"
    using u by (simp add: post_push_cases)
  then show ?thesis by (simp add: internal_error_def)
qed

section \<open>Pull\<close>

lemma whereConditions_hold:
  "list_all (\<lambda>c. holds c r) (whereConditions u v a)
   \<longleftrightarrow> sl_userId r = u \<and> sl_vaultId r = v \<and> after_holds a (sl_sequence r)"
  by (cases a) (simp_all add: whereConditions_def after_holds_def)

lemma whereConditions_ok: "list_all operand_ok (whereConditions u v a) \<longleftrightarrow> after_in_range a"
  by (cases a) (simp_all add: whereConditions_def after_in_range_def)

lemma findMany_whereConditions:
  "syncLogs_findMany e rows (whereConditions u v a) lim
   = (if \<not> store_answers e (SelectSyncLogs (whereConditions u v a) lim) then Inl StatementFailed
      else if after_in_range a
        then Inr (take (nat lim) (sort_key sl_sequence (qualifying rows u v a)))
      else Inl IntegerOutOfRange)"
  by (simp add: syncLogs_findMany_def whereConditions_hold whereConditions_ok qualifying_def)

lemma parse_limit_range: "parse_limit l = Some limit \<Longrightarrow> 1 \<le> limit \<and> limit \<le> 1000"
  by (auto simp: parse_limit_def split: option.splits if_splits)

lemma post_pull_cases:
  assumes "is_uuid e (qj_vaultId j)" and "parse_limit (qj_limit j) = Some limit"
  shows "post_pull e d user j =
     (if after_in_range (qj_afterSequence j)
         \<and> store_answers e (SelectSyncLogs
               (whereConditions (userId user) (qj_vaultId j) (qj_afterSequence j)) (limit + 1))
      then (Json (PullBody
                    (map pulled (take (nat limit) (sort_key sl_sequence
                       (qualifying (syncLogs d) (userId user) (qj_vaultId j) (qj_afterSequence j)))))
                    (limit < int (length (qualifying (syncLogs d) (userId user) (qj_vaultId j)
                                            (qj_afterSequence j))))) 200, d)
      else (internal_error, d))"
proof -
  have l: "1 \<le> limit" using assms(2) parse_limit_range by blast
  then have m: "min (nat limit) (nat (limit + 1)) = nat limit" by simp
  have h: "limit < int (min (length xs) (nat (limit + 1))) \<longleftrightarrow> limit < int (length xs)" for xs :: "SyncLog list"
    using l by auto
  show ?thesis
    using assms by (simp add: post_pull_def findMany_whereConditions Let_def m h)
qed

text \<open>
  Claim C2, as the code has it.  For every pull whose body passes validation (a uuid, a
  limit from 1 to 1000 or the default 100), take the qualifying rows, the first \<open>limit\<close>
  of them in ascending order of sequence, and their entries, field by field.  Every such
  entry belongs to a stored row of the caller and of the vault and has a sequence above
  \<open>afterSequence\<close> when one is given; the sequences of the entries are sorted; there are
  at most \<open>limit\<close> of them.  When \<open>afterSequence\<close> is absent or within the range of the
  column it is compared with, and the store answers the query, the answer has status 200,
  these entries as \<open>logs\<close>, and \<open>hasMore\<close> says that more than \<open>limit\<close> rows qualify.
  Otherwise the answer is the 500 of the catch block.  The store is returned as it was.
\<close>

theorem pull_returns_ordered_page:
  assumes "is_uuid e (qj_vaultId j)"
    and "parse_limit (qj_limit j) = Some limit"
    and "q = qualifying (syncLogs d) (userId user) (qj_vaultId j) (qj_afterSequence j)"
    and "returned = take (nat limit) (sort_key sl_sequence q)"
    and "entries = map (\<lambda>r. \<lparr>pl_id = sl_id r, pl_encryptedData = sl_encryptedData r,
                               pl_nonce = sl_nonce r, pl_haexTimestamp = sl_haexTimestamp r,
                               pl_sequence = sl_sequence r, pl_createdAt = sl_createdAt r\<rparr>)
                     returned"
  shows "post_pull e d user j =
           (if after_in_range (qj_afterSequence j)
               \<and> store_answers e (SelectSyncLogs
                     (whereConditions (userId user) (qj_vaultId j) (qj_afterSequence j)) (limit + 1))
            then (Json (PullBody entries (limit < int (length q))) 200, d)
            else (Json (ErrorBody ''Internal server error'') 500, d))
         \<and> (\<forall>x \<in> set entries.
               (\<exists>r \<in> set (syncLogs d). sl_userId r = userId user \<and> sl_vaultId r = qj_vaultId j
                    \<and> belongs_to x r)
               \<and> (case qj_afterSequence j of None \<Rightarrow> True | Some a \<Rightarrow> a < pl_sequence x))
         \<and> sorted (map pl_sequence entries)
         \<and> int (length entries) \<le> limit
         \<and> 1 \<le> limit \<and> limit \<le> 1000"
proof -
  have ent: "entries = map pulled returned"
    by (simp add: assms(5) pulled_def)
  have page: "post_pull e d user j =
           (if after_in_range (qj_afterSequence j)
               \<and> store_answers e (SelectSyncLogs
                     (whereConditions (userId user) (qj_vaultId j) (qj_afterSequence j)) (limit + 1))
            then (Json (PullBody entries (limit < int (length q))) 200, d)
            else (Json (ErrorBody ''Internal server error'') 500, d))"
    unfolding ent assms(4) assms(3) post_pull_cases [OF assms(1,2)] internal_error_def by simp
  have sub: "set returned \<subseteq> set q"
    using set_take_subset [of "nat limit" "sort_key sl_sequence q"] assms(4) by simp
  have rows: "\<forall>r \<in> set returned. r \<in> set (syncLogs d) \<and> sl_userId r = userId user
                \<and> sl_vaultId r = qj_vaultId j
                \<and> (case qj_afterSequence j of None \<Rightarrow> True | Some a \<Rightarrow> a < sl_sequence r)"
    using sub assms(3) by (auto simp: qualifying_def after_holds_def)
  have own: "\<forall>x \<in> set entries.
               (\<exists>r \<in> set (syncLogs d). sl_userId r = userId user \<and> sl_vaultId r = qj_vaultId j
                    \<and> belongs_to x r)
               \<and> (case qj_afterSequence j of None \<Rightarrow> True | Some a \<Rightarrow> a < pl_sequence x)"
  proof
    fix x assume "x \<in> set entries"
    then obtain r where r: "r \<in> set returned"
      and x: "x = \<lparr>pl_id = sl_id r, pl_encryptedData = sl_encryptedData r,
                   pl_nonce = sl_nonce r, pl_haexTimestamp = sl_haexTimestamp r,
                   pl_sequence = sl_sequence r, pl_createdAt = sl_createdAt r\<rparr>"
      unfolding assms(5) by auto
    have b: "belongs_to x r" by (simp add: x belongs_to_def)
    have s: "pl_sequence x = sl_sequence r" by (simp add: x)
    from rows r have "r \<in> set (syncLogs d) \<and> sl_userId r = userId user
                \<and> sl_vaultId r = qj_vaultId j
                \<and> (case qj_afterSequence j of None \<Rightarrow> True | Some a \<Rightarrow> a < sl_sequence r)"
      by blast
    with b s show "(\<exists>r \<in> set (syncLogs d). sl_userId r = userId user \<and> sl_vaultId r = qj_vaultId j
                    \<and> belongs_to x r)
               \<and> (case qj_afterSequence j of None \<Rightarrow> True | Some a \<Rightarrow> a < pl_sequence x)"
      by (auto split: option.splits)
  qed
  have "sorted (map sl_sequence (sort_key sl_sequence q))" by (rule sorted_sort_key)
  then have "sorted (take (nat limit) (map sl_sequence (sort_key sl_sequence q)))"
    by (rule sorted_wrt_take)
  then have srt: "sorted (map pl_sequence entries)"
    by (simp add: assms(5) assms(4) take_map comp_def)
  have rng: "1 \<le> limit \<and> limit \<le> 1000" using assms(2) by (rule parse_limit_range)
  then have len: "int (length entries) \<le> limit"
    by (auto simp: assms(5) assms(4) min_def)
  show ?thesis using page own srt len rng by blast
qed

theorem pull_returns_ordered_page_witness:
  "post_pull example_env pull_db alice example_pull
   = (Json (PullBody [\<lparr>pl_id = ''p7'', pl_encryptedData = ''data-t-7'', pl_nonce = ''nonce-t-7'',
                       pl_haexTimestamp = ''t-7'', pl_sequence = 7,
                       pl_createdAt = ''2024-12-31T00:00:00''\<rparr>] True) 200, pull_db)"
proof -
  have u: "is_uuid example_env (qj_vaultId example_pull)"
    by (simp add: example_env_def example_pull_def v1_uuid)
  have l: "parse_limit (qj_limit example_pull) = Some 1"
    by (simp add: parse_limit_def example_pull_def)
  have a: "after_in_range (qj_afterSequence example_pull)"
    by (simp add: after_in_range_def example_pull_def int4_def)
  have st: "store_answers example_env (SelectSyncLogs
               (whereConditions (userId alice) (qj_vaultId example_pull)
                  (qj_afterSequence example_pull)) (1 + 1))"
    by (simp add: store_answers_def whereConditions_def example_pull_def example_env_def
          text_ok_def v1_no_nul)
  have q: "qualifying (syncLogs pull_db) (userId alice) (qj_vaultId example_pull)
             (qj_afterSequence example_pull)
           = [example_log ''p8'' ''alice'' v1 ''t-8'' 8, example_log ''p7'' ''alice'' v1 ''t-7'' 7]"
    by (simp add: qualifying_def after_holds_def pull_db_def example_pull_def alice_def
          example_log_def v1_def v2_def)
  have s: "take (nat 1) (sort_key sl_sequence
             [example_log ''p8'' ''alice'' v1 ''t-8'' 8, example_log ''p7'' ''alice'' v1 ''t-7'' 7])
           = [example_log ''p7'' ''alice'' v1 ''t-7'' 7]"
    by (simp add: example_log_def)
  have en: "[\<lparr>pl_id = ''p7'', pl_encryptedData = ''data-t-7'', pl_nonce = ''nonce-t-7'',
              pl_haexTimestamp = ''t-7'', pl_sequence = 7,
              pl_createdAt = ''2024-12-31T00:00:00''\<rparr>]
      = map (\<lambda>r. \<lparr>pl_id = sl_id r, pl_encryptedData = sl_encryptedData r,
                               pl_nonce = sl_nonce r, pl_haexTimestamp = sl_haexTimestamp r,
                               pl_sequence = sl_sequence r, pl_createdAt = sl_createdAt r\<rparr>)
          [example_log ''p7'' ''alice'' v1 ''t-7'' 7]"
    by (simp add: example_log_def)
  from pull_returns_ordered_page [OF u l q [symmetric] s [symmetric] en] a st
  show ?thesis by simp
qed

text \<open>
  The claim C2 as stated fails: \<open>afterSequence = 2147483648\<close> passes the schema, the
  query fails on it and the pull is answered 500, with no page and no \<open>hasMore\<close>.
\<close>

theorem pull_beyond_integer_range_fails:
  "is_uuid example_env (qj_vaultId big_pull)
   \<and> parse_limit (qj_limit big_pull) = Some 1
   \<and> post_pull example_env pull_db alice big_pull
       = (Json (ErrorBody ''Internal server error'') 500, pull_db)"
proof -
  have u: "is_uuid example_env (qj_vaultId big_pull)"
    by (simp add: example_env_def big_pull_def v1_uuid)
  have l: "parse_limit (qj_limit big_pull) = Some 1"
    by (simp add: parse_limit_def big_pull_def)
  have "\<not> after_in_range (qj_afterSequence big_pull)"
    by (simp add: after_in_range_def big_pull_def int4_def)
  then have "post_pull example_env pull_db alice big_pull = (internal_error, pull_db)"
    by (simp add: post_pull_cases [OF u l])
  with u l show ?thesis by (simp add: internal_error_def)
qed

text \<open>
  Claim C8.  A pull returns the store it was given, whatever it answers, so a second pull
  with the same arguments reads the same store and answers the same; this holds for the
  route alone and behind the authentication middleware.
\<close>

theorem pull_is_pure:
  "snd (post_pull e d user j) = d
   \<and> post_pull e (snd (post_pull e d user j)) user j = post_pull e d user j
   \<and> snd (sync e d authHeader (PostPull j)) = d
   \<and> sync e (snd (sync e d authHeader (PostPull j))) authHeader (PostPull j)
       = sync e d authHeader (PostPull j)"
proof -
  have a: "snd (post_pull e d user j) = d" for user
    by (simp add: post_pull_def Let_def split: option.split sum.split)
  have b: "snd (sync e d authHeader (PostPull j)) = d"
    by (simp add: sync_def a split: sum.split)
  show ?thesis by (simp add: a b)
qed

theorem pull_is_pure_witness:
  "snd (sync example_env pull_db (Some ''Bearer alice-token'') (PostPull example_pull)) = pull_db"
  using pull_is_pure [of example_env pull_db alice example_pull "Some ''Bearer alice-token''"]
  by simp

section \<open>Vault keys\<close>

lemma find_append_Some: "List.find P xs = Some x \<Longrightarrow> List.find P (xs @ ys) = Some x"
  by (induction xs) (auto split: if_splits)

lemma find_append_None: "List.find P xs = None \<Longrightarrow> List.find P (xs @ ys) = List.find P ys"
  by (induction xs) (auto split: if_splits)

lemma vaultKeys_findFirst_stored:
  "vaultKeys_findFirst e rows u v =
     (if store_answers e (SelectVaultKey u v) then Inr (stored_key rows u v) else Inl StatementFailed)"
  by (simp add: vaultKeys_findFirst_def stored_key_def)

lemma post_vault_key_first:
  assumes "is_uuid e (vj_vaultId j)"
    and "stored_key (vaultKeys d) (userId user) (vj_vaultId j) = None"
    and "new = \<lparr>vk_id = gen_random_uuid e 0, vk_userId = userId user, vk_vaultId = vj_vaultId j,
                 vk_encryptedVaultKey = vj_encryptedVaultKey j, vk_salt = vj_salt j,
                 vk_nonce = vj_nonce j, vk_createdAt = now e, vk_updatedAt = now e\<rparr>"
  shows "post_vault_key e d user j =
     (if store_answers e (SelectVaultKey (userId user) (vj_vaultId j))
         \<and> store_answers e (InsertVaultKey new)
      then (Json (VaultKeyStored ''Vault key stored successfully'' (gen_random_uuid e 0)
                    (vj_vaultId j) (now e)) 201,
            d\<lparr>vaultKeys := vaultKeys d @ [new]\<rparr>)
      else (internal_error, d))"
proof -
  have "\<not> list_ex (\<lambda>r. vk_userId r = userId user \<and> vk_vaultId r = vj_vaultId j) (vaultKeys d)"
    using assms(2) by (auto simp: stored_key_def find_None_iff list_ex_iff)
  then show ?thesis
    using assms
    by (simp add: post_vault_key_def vaultKeys_findFirst_stored vaultKeys_insert_def Let_def)
qed

lemma post_vault_key_existing:
  assumes "is_uuid e (vj_vaultId j)"
    and "stored_key (vaultKeys d) (userId user) (vj_vaultId j) = Some k"
  shows "post_vault_key e d user j
         = (if store_answers e (SelectVaultKey (userId user) (vj_vaultId j))
            then Json (ErrorBody ''Vault key already exists for this vault'') 409
            else internal_error, d)"
  using assms by (simp add: post_vault_key_def vaultKeys_findFirst_stored)

lemma post_vault_key_appends: "\<exists>ys. vaultKeys (snd (post_vault_key e d user j)) = vaultKeys d @ ys"
  by (auto simp: post_vault_key_def Let_def vaultKeys_insert_def vaultKeys_findFirst_stored
      split: option.split)

lemma sync_vaultKeys_append: "\<exists>ys. vaultKeys (snd (sync e d authHeader req)) = vaultKeys d @ ys"
proof (cases "authMiddleware e authHeader")
  case (Inl r)
  then show ?thesis by (simp add: sync_def)
next
  case (Inr user)
  show ?thesis
  proof (cases req)
    case (PostVaultKey j)
    with Inr show ?thesis using post_vault_key_appends by (simp add: sync_def)
  next
    case (GetVaultKey v)
    with Inr show ?thesis
      by (simp add: sync_def get_vault_key_def split: option.split sum.split)
  next
    case (PostPush j)
    with Inr show ?thesis
      by (simp add: sync_def post_push_def Let_def split: sum.split)
  next
    case (PostPull j)
    with Inr show ?thesis
      by (simp add: sync_def post_pull_def Let_def split: option.split sum.split)
  qed
qed

lemma sync_keeps_vault_key:
  assumes "stored_key (vaultKeys d) u v = Some k"
  shows "stored_key (vaultKeys (snd (sync e d authHeader req))) u v = Some k"
proof -
  obtain ys where "vaultKeys (snd (sync e d authHeader req)) = vaultKeys d @ ys"
    using sync_vaultKeys_append by blast
  with assms show ?thesis by (simp add: stored_key_def find_append_Some)
qed

lemma serve_all_keeps_vault_key:
  "stored_key (vaultKeys d) u v = Some k \<Longrightarrow> stored_key (vaultKeys (serve_all steps d)) u v = Some k"
proof (induction steps arbitrary: d)
  case Nil
  then show ?case by (simp add: serve_all_def)
next
  case (Cons s steps)
  obtain e h r where s: "s = (e, h, r)" by (cases s) auto
  have "stored_key (vaultKeys (snd (sync e d h r))) u v = Some k"
    using Cons.prems by (rule sync_keeps_vault_key)
  then have "stored_key (vaultKeys (serve_all steps (snd (sync e d h r)))) u v = Some k"
    by (rule Cons.IH)
  then show ?case by (simp add: serve_all_def s)
qed

lemma get_vault_key_stored:
  assumes "stored_key (vaultKeys d) (userId user) v = Some k"
  shows "get_vault_key e d user v =
           (if store_answers e (SelectVaultKey (userId user) v)
            then Json (VaultKeyBody
                   \<lparr>vv_vaultId = vk_vaultId k, vv_encryptedVaultKey = vk_encryptedVaultKey k,
                    vv_salt = vk_salt k, vv_nonce = vk_nonce k, vv_createdAt = vk_createdAt k\<rparr>) 200
            else internal_error, d)"
  using assms by (simp add: get_vault_key_def vaultKeys_findFirst_stored view_of_def)

text \<open>
  Claim C5, as the code has it.  When no vault key is stored for the pair of user and
  vault, a create whose body passes validation answers 201 and appends the record if the
  store answers the lookup and the insert, and answers the 500 of the catch block and
  stores nothing otherwise.  After a create that succeeded and any history of further
  requests, the first record is still the one stored for the pair; a create for the same
  pair (any contents, any time) leaves the store as it is and answers 409, or 500 when the
  store does not answer the lookup; and a read after that second create answers 200 with
  the data of the first create, or 500 when the store does not answer.
\<close>

theorem vault_key_create_once:
  assumes "is_uuid e1 (vj_vaultId j1)"
    and "is_uuid e2 (vj_vaultId j2)"
    and "vj_vaultId j2 = vj_vaultId j1"
    and "stored_key (vaultKeys d) (userId user) (vj_vaultId j1) = None"
    and "first = \<lparr>vk_id = gen_random_uuid e1 0, vk_userId = userId user, vk_vaultId = vj_vaultId j1,
                   vk_encryptedVaultKey = vj_encryptedVaultKey j1, vk_salt = vj_salt j1,
                   vk_nonce = vj_nonce j1, vk_createdAt = now e1, vk_updatedAt = now e1\<rparr>"
    and "lookup = SelectVaultKey (userId user) (vj_vaultId j1)"
    and "d1 = snd (post_vault_key e1 d user j1)"
    and "d2 = serve_all steps d1"
  shows "post_vault_key e1 d user j1 =
           (if store_answers e1 lookup \<and> store_answers e1 (InsertVaultKey first)
            then (Json (VaultKeyStored ''Vault key stored successfully'' (gen_random_uuid e1 0)
                          (vj_vaultId j1) (now e1)) 201,
                  d\<lparr>vaultKeys := vaultKeys d @ [first]\<rparr>)
            else (Json (ErrorBody ''Internal server error'') 500, d))
         \<and> (store_answers e1 lookup \<and> store_answers e1 (InsertVaultKey first) \<longrightarrow>
              stored_key (vaultKeys d2) (userId user) (vj_vaultId j1) = Some first
              \<and> post_vault_key e2 d2 user j2 =
                  (if store_answers e2 lookup
                   then Json (ErrorBody ''Vault key already exists for this vault'') 409
                   else Json (ErrorBody ''Internal server error'') 500, d2)
              \<and> get_vault_key e3 (snd (post_vault_key e2 d2 user j2)) user (vj_vaultId j1) =
                  (if store_answers e3 lookup
                   then Json (VaultKeyBody
                          \<lparr>vv_vaultId = vj_vaultId j1,
                           vv_encryptedVaultKey = vj_encryptedVaultKey j1,
                           vv_salt = vj_salt j1, vv_nonce = vj_nonce j1,
                           vv_createdAt = now e1\<rparr>) 200
                   else Json (ErrorBody ''Internal server error'') 500, d2))"
proof -
  let ?ok = "store_answers e1 lookup \<and> store_answers e1 (InsertVaultKey first)"
  have created: "post_vault_key e1 d user j1 =
           (if ?ok
            then (Json (VaultKeyStored ''Vault key stored successfully'' (gen_random_uuid e1 0)
                          (vj_vaultId j1) (now e1)) 201,
                  d\<lparr>vaultKeys := vaultKeys d @ [first]\<rparr>)
            else (Json (ErrorBody ''Internal server error'') 500, d))"
    unfolding assms(6) post_vault_key_first [OF assms(1) assms(4) assms(5)] internal_error_def
    by simp
  have rest: "stored_key (vaultKeys d2) (userId user) (vj_vaultId j1) = Some first
              \<and> post_vault_key e2 d2 user j2 =
                  (if store_answers e2 lookup
                   then Json (ErrorBody ''Vault key already exists for this vault'') 409
                   else Json (ErrorBody ''Internal server error'') 500, d2)
              \<and> get_vault_key e3 (snd (post_vault_key e2 d2 user j2)) user (vj_vaultId j1) =
                  (if store_answers e3 lookup
                   then Json (VaultKeyBody
                          \<lparr>vv_vaultId = vj_vaultId j1,
                           vv_encryptedVaultKey = vj_encryptedVaultKey j1,
                           vv_salt = vj_salt j1, vv_nonce = vj_nonce j1,
                           vv_createdAt = now e1\<rparr>) 200
                   else Json (ErrorBody ''Internal server error'') 500, d2)"
    if ok: ?ok
  proof -
    have rows: "vaultKeys d1 = vaultKeys d @ [first]"
      using created ok by (simp add: assms(7))
    have "stored_key (vaultKeys d1) (userId user) (vj_vaultId j1) = Some first"
      using assms(4) by (simp add: rows stored_key_def find_append_None assms(5))
    then have kept: "stored_key (vaultKeys d2) (userId user) (vj_vaultId j1) = Some first"
      unfolding assms(8) by (rule serve_all_keeps_vault_key)
    then have kept2: "stored_key (vaultKeys d2) (userId user) (vj_vaultId j2) = Some first"
      by (simp add: assms(3))
    have conflict: "post_vault_key e2 d2 user j2 =
                  (if store_answers e2 lookup
                   then Json (ErrorBody ''Vault key already exists for this vault'') 409
                   else Json (ErrorBody ''Internal server error'') 500, d2)"
      unfolding post_vault_key_existing [OF assms(2) kept2] assms(6) assms(3) internal_error_def
      by simp
    have found: "get_vault_key e3 d2 user (vj_vaultId j1) =
                  (if store_answers e3 lookup
                   then Json (VaultKeyBody
                          \<lparr>vv_vaultId = vj_vaultId j1,
                           vv_encryptedVaultKey = vj_encryptedVaultKey j1,
                           vv_salt = vj_salt j1, vv_nonce = vj_nonce j1,
                           vv_createdAt = now e1\<rparr>) 200
                   else Json (ErrorBody ''Internal server error'') 500, d2)"
      unfolding get_vault_key_stored [OF kept] assms(6) internal_error_def
      by (simp add: assms(5))
    have same: "snd (post_vault_key e2 d2 user j2) = d2"
      by (simp add: conflict)
    have found2: "get_vault_key e3 (snd (post_vault_key e2 d2 user j2)) user (vj_vaultId j1) =
                  (if store_answers e3 lookup
                   then Json (VaultKeyBody
                          \<lparr>vv_vaultId = vj_vaultId j1,
                           vv_encryptedVaultKey = vj_encryptedVaultKey j1,
                           vv_salt = vj_salt j1, vv_nonce = vj_nonce j1,
                           vv_createdAt = now e1\<rparr>) 200
                   else Json (ErrorBody ''Internal server error'') 500, d2)"
      using found by (simp only: same)
    show ?thesis
      using kept conflict found2 by blast
  qed
  show ?thesis using created rest by blast
qed

lemma example_lookup_answered: "store_answers example_env (SelectVaultKey u v1)"
  by (simp add: store_answers_def example_env_def text_ok_def v1_no_nul)

lemma later_lookup_answered: "store_answers later_env (SelectVaultKey u v1)"
  by (simp add: store_answers_def later_env_def example_env_def text_ok_def v1_no_nul)

theorem vault_key_create_once_witness:
  "fst (post_vault_key example_env example_db alice example_key)
     = Json (VaultKeyStored ''Vault key stored successfully'' ''row-'' v1 ''2025-01-01T00:00:00'') 201
   \<and> fst (post_vault_key later_env (snd (post_vault_key example_env example_db alice example_key))
            alice other_key)
     = Json (ErrorBody ''Vault key already exists for this vault'') 409
   \<and> fst (get_vault_key later_env
            (snd (post_vault_key later_env
               (snd (post_vault_key example_env example_db alice example_key)) alice other_key))
            alice v1)
     = Json (VaultKeyBody \<lparr>vv_vaultId = v1, vv_encryptedVaultKey = ''key-1'', vv_salt = ''salt-1'',
                           vv_nonce = ''nonce-1'', vv_createdAt = ''2025-01-01T00:00:00''\<rparr>) 200"
proof -
  let ?first = "\<lparr>vk_id = gen_random_uuid example_env 0, vk_userId = userId alice,
                  vk_vaultId = vj_vaultId example_key,
                  vk_encryptedVaultKey = vj_encryptedVaultKey example_key,
                  vk_salt = vj_salt example_key, vk_nonce = vj_nonce example_key,
                  vk_createdAt = now example_env, vk_updatedAt = now example_env\<rparr>"
  have u1: "is_uuid example_env (vj_vaultId example_key)"
    by (simp add: example_env_def example_key_def v1_uuid)
  have u2: "is_uuid later_env (vj_vaultId other_key)"
    by (simp add: later_env_def example_env_def other_key_def v1_uuid)
  have same: "vj_vaultId other_key = vj_vaultId example_key"
    by (simp add: other_key_def example_key_def)
  have none: "stored_key (vaultKeys example_db) (userId alice) (vj_vaultId example_key) = None"
    by (simp add: stored_key_def example_db_def)
  have steps: "snd (post_vault_key example_env example_db alice example_key)
               = serve_all [] (snd (post_vault_key example_env example_db alice example_key))"
    by (simp add: serve_all_def)
  have k: "vj_vaultId example_key = v1" "vj_encryptedVaultKey example_key = ''key-1''"
    "vj_salt example_key = ''salt-1''" "vj_nonce example_key = ''nonce-1''"
    by (simp_all add: example_key_def)
  have n: "now example_env = ''2025-01-01T00:00:00''" "gen_random_uuid example_env 0 = ''row-''"
    by (simp_all add: example_env_def)
  have ins: "store_answers example_env (InsertVaultKey ?first)"
    by (simp add: store_answers_def k text_ok_def v1_no_nul) (simp add: example_env_def)
  have ok: "store_answers example_env (SelectVaultKey (userId alice) (vj_vaultId example_key))
            \<and> store_answers example_env (InsertVaultKey ?first)"
    using ins by (simp add: k example_lookup_answered)
  have l2: "store_answers later_env (SelectVaultKey (userId alice) (vj_vaultId example_key))"
    by (simp add: k later_lookup_answered)
  note th = vault_key_create_once [OF u1 u2 same none refl refl refl steps, of later_env]
  have a: "post_vault_key example_env example_db alice example_key
      = (Json (VaultKeyStored ''Vault key stored successfully'' ''row-'' v1 ''2025-01-01T00:00:00'') 201,
         example_db\<lparr>vaultKeys := vaultKeys example_db @ [?first]\<rparr>)"
    using th [THEN conjunct1] ok by (simp add: k n)
  note rest = th [THEN conjunct2, THEN mp, OF ok]
  have c: "post_vault_key later_env (snd (post_vault_key example_env example_db alice example_key))
             alice other_key
      = (Json (ErrorBody ''Vault key already exists for this vault'') 409,
         snd (post_vault_key example_env example_db alice example_key))"
    using rest [THEN conjunct2, THEN conjunct1] l2 by simp
  have g: "get_vault_key later_env
            (snd (post_vault_key later_env
               (snd (post_vault_key example_env example_db alice example_key)) alice other_key))
            alice (vj_vaultId example_key)
      = (Json (VaultKeyBody \<lparr>vv_vaultId = v1, vv_encryptedVaultKey = ''key-1'', vv_salt = ''salt-1'',
                           vv_nonce = ''nonce-1'', vv_createdAt = ''2025-01-01T00:00:00''\<rparr>) 200,
         snd (post_vault_key example_env example_db alice example_key))"
    using rest [THEN conjunct2, THEN conjunct2] l2 by (simp add: k n)
  have A: "fst (post_vault_key example_env example_db alice example_key)
     = Json (VaultKeyStored ''Vault key stored successfully'' ''row-'' v1 ''2025-01-01T00:00:00'') 201"
    using a by simp
  have C: "fst (post_vault_key later_env (snd (post_vault_key example_env example_db alice example_key))
            alice other_key)
     = Json (ErrorBody ''Vault key already exists for this vault'') 409"
    using c by simp
  have G: "fst (get_vault_key later_env
            (snd (post_vault_key later_env
               (snd (post_vault_key example_env example_db alice example_key)) alice other_key))
            alice v1)
     = Json (VaultKeyBody \<lparr>vv_vaultId = v1, vv_encryptedVaultKey = ''key-1'', vv_salt = ''salt-1'',
                           vv_nonce = ''nonce-1'', vv_createdAt = ''2025-01-01T00:00:00''\<rparr>) 200"
    using g [unfolded k] by simp
  show ?thesis
    using A C G by blast
qed

text \<open>
  The claim C5 as stated fails: a first create whose body passes validation and whose
  key is the character U+0000 does not succeed; the insert fails, the answer is 500 and
  nothing is stored.
\<close>

theorem vault_key_first_create_can_fail:
  "is_uuid example_env (vj_vaultId nul_key)
   \<and> stored_key (vaultKeys example_db) (userId alice) (vj_vaultId nul_key) = None
   \<and> post_vault_key example_env example_db alice nul_key
       = (Json (ErrorBody ''Internal server error'') 500, example_db)"
proof -
  have u: "is_uuid example_env (vj_vaultId nul_key)"
    by (simp add: example_env_def nul_key_def v1_uuid)
  have none: "stored_key (vaultKeys example_db) (userId alice) (vj_vaultId nul_key) = None"
    by (simp add: stored_key_def example_db_def)
  have "post_vault_key example_env example_db alice nul_key = (internal_error, example_db)"
    unfolding post_vault_key_first [OF u none refl]
    by (simp add: store_answers_def nul_key_def text_ok_def)
  with u none show ?thesis by (simp add: internal_error_def)
qed

section \<open>Authentication\<close>

lemma authMiddleware_header_rejected:
  "header_rejected authHeader \<Longrightarrow>
   authMiddleware e authHeader = Inl (Json (ErrorBody ''Unauthorized - Missing or invalid token'') 401)"
  by (auto simp: header_rejected_def authMiddleware_def split: option.splits)

lemma authMiddleware_token_rejected:
  "token_rejected e authHeader \<Longrightarrow>
   authMiddleware e authHeader = Inl (Json (ErrorBody ''Unauthorized - Invalid token'') 401)"
  by (auto simp: token_rejected_def authMiddleware_def
      split: option.splits getUser_result.splits)

text \<open>
  Claim C7, as the code has it.  On every route, a request rejected for its header and a
  request rejected for its token are both answered with status 401 and a body of the one
  field \<open>error\<close>, and the store is left as it was; the text of the error differs:
  \<open>Unauthorized - Missing or invalid token\<close> for the header,
  \<open>Unauthorized - Invalid token\<close> for the token.
\<close>

theorem unauthorized_responses:
  "(header_rejected authHeader \<longrightarrow>
      sync e d authHeader req
        = (Json (ErrorBody ''Unauthorized - Missing or invalid token'') 401, d))
   \<and> (token_rejected e authHeader \<longrightarrow>
      sync e d authHeader req = (Json (ErrorBody ''Unauthorized - Invalid token'') 401, d))"
  by (simp add: sync_def authMiddleware_header_rejected authMiddleware_token_rejected)

lemma no_header_rejected: "header_rejected None"
  by (simp add: header_rejected_def)

lemma expired_token_rejected: "token_rejected example_env (Some ''Bearer expired'')"
  by (simp add: token_rejected_def startsWith_def example_env_def)

theorem unauthorized_responses_witness:
  "status (fst (sync example_env example_db None (GetVaultKey v1))) = 401
   \<and> status (fst (sync example_env example_db (Some ''Bearer expired'') (GetVaultKey v1))) = 401"
  using unauthorized_responses [of None example_env example_db "GetVaultKey v1"]
    unauthorized_responses [of "Some ''Bearer expired''" example_env example_db "GetVaultKey v1"]
    no_header_rejected expired_token_rejected
  by simp

text \<open>
  The claim C7 as stated fails: the answer to a request without header differs from the
  answer to a request with a token the provider rejects.
\<close>

theorem unauthorized_responses_differ:
  "header_rejected None \<and> token_rejected example_env (Some ''Bearer expired'')
   \<and> fst (sync example_env example_db None (GetVaultKey v1))
       \<noteq> fst (sync example_env example_db (Some ''Bearer expired'') (GetVaultKey v1))"
proof -
  have a: "sync example_env example_db None (GetVaultKey v1)
      = (Json (ErrorBody ''Unauthorized - Missing or invalid token'') 401, example_db)"
    using no_header_rejected
    by (simp add: sync_def authMiddleware_header_rejected)
  have b: "sync example_env example_db (Some ''Bearer expired'') (GetVaultKey v1)
      = (Json (ErrorBody ''Unauthorized - Invalid token'') 401, example_db)"
    using expired_token_rejected
    by (simp add: sync_def authMiddleware_token_rejected)
  show ?thesis
    using no_header_rejected expired_token_rejected by (simp add: a b)
qed

section \<open>Reading a vault key\<close>

lemma stored_key_found:
  "stored_key rows u v = Some k \<Longrightarrow> k \<in> set rows \<and> vk_userId k = u \<and> vk_vaultId k = v"
  unfolding stored_key_def
  by (induction rows) (auto split: if_splits)

lemma stored_key_none:
  "stored_key rows u v = None \<longleftrightarrow> \<not> list_ex (\<lambda>k. vk_userId k = u \<and> vk_vaultId k = v) rows"
  by (auto simp: stored_key_def find_None_iff list_ex_iff)

text \<open>
  Claim C10, as the code has it.  For every string given as \<open>vaultId\<close> the read route
  gives one of three answers: the 500 of its catch block when the store does not answer
  the query (as for a \<open>vaultId\<close> containing U+0000), 404 when the caller has no record
  for it, and otherwise 200 with the fields of a record of the caller for that vault.  It
  never answers 400, leaves the store as it was, and does not consult the uuid test at
  all.  The create route answers a body whose \<open>vaultId\<close> fails the uuid test with the
  validator's 400, whatever the store holds or would answer, and leaves the store as it
  was.
\<close>

theorem get_vault_key_not_validated:
  "((fst (get_vault_key e d user vaultId) = Json (ErrorBody ''Internal server error'') 500
       \<and> \<not> store_answers e (SelectVaultKey (userId user) vaultId))
     \<or> (fst (get_vault_key e d user vaultId) = Json (ErrorBody ''Vault key not found'') 404
       \<and> store_answers e (SelectVaultKey (userId user) vaultId)
       \<and> \<not> list_ex (\<lambda>k. vk_userId k = userId user \<and> vk_vaultId k = vaultId) (vaultKeys d))
     \<or> (store_answers e (SelectVaultKey (userId user) vaultId)
       \<and> list_ex (\<lambda>k. vk_userId k = userId user \<and> vk_vaultId k = vaultId
                  \<and> fst (get_vault_key e d user vaultId)
                      = Json (VaultKeyBody
                          \<lparr>vv_vaultId = vk_vaultId k,
                           vv_encryptedVaultKey = vk_encryptedVaultKey k,
                           vv_salt = vk_salt k, vv_nonce = vk_nonce k,
                           vv_createdAt = vk_createdAt k\<rparr>) 200)
          (vaultKeys d)))
   \<and> snd (get_vault_key e d user vaultId) = d
   \<and> status (fst (get_vault_key e d user vaultId)) \<noteq> 400
   \<and> get_vault_key (e\<lparr>is_uuid := f\<rparr>) d user vaultId = get_vault_key e d user vaultId
   \<and> (\<not> is_uuid e (vj_vaultId j) \<longrightarrow> post_vault_key e d user j = (Json ZodErrorBody 400, d))"
proof -
  have upd: "get_vault_key (e\<lparr>is_uuid := f\<rparr>) d user vaultId = get_vault_key e d user vaultId"
    by (simp add: get_vault_key_def vaultKeys_findFirst_def store_answers_def)
  have create: "\<not> is_uuid e (vj_vaultId j) \<longrightarrow> post_vault_key e d user j = (Json ZodErrorBody 400, d)"
    by (simp add: post_vault_key_def)
  show ?thesis
  proof (cases "store_answers e (SelectVaultKey (userId user) vaultId)")
    case False
    then have "get_vault_key e d user vaultId = (internal_error, d)"
      by (simp add: get_vault_key_def vaultKeys_findFirst_def)
    with False upd create show ?thesis by (simp add: internal_error_def)
  next
    case True
    show ?thesis
    proof (cases "stored_key (vaultKeys d) (userId user) vaultId")
      case None
      then have no: "\<not> list_ex (\<lambda>k. vk_userId k = userId user \<and> vk_vaultId k = vaultId) (vaultKeys d)"
        by (simp add: stored_key_none)
      have "get_vault_key e d user vaultId = (Json (ErrorBody ''Vault key not found'') 404, d)"
        using True None by (simp add: get_vault_key_def vaultKeys_findFirst_stored)
      with True no upd create show ?thesis by simp
    next
      case (Some k)
      then have kk: "k \<in> set (vaultKeys d) \<and> vk_userId k = userId user \<and> vk_vaultId k = vaultId"
        by (rule stored_key_found)
      have r: "get_vault_key e d user vaultId
            = (Json (VaultKeyBody
                          \<lparr>vv_vaultId = vk_vaultId k,
                           vv_encryptedVaultKey = vk_encryptedVaultKey k,
                           vv_salt = vk_salt k, vv_nonce = vk_nonce k,
                           vv_createdAt = vk_createdAt k\<rparr>) 200, d)"
        using True by (simp add: get_vault_key_stored [OF Some])
      have ex: "list_ex (\<lambda>k. vk_userId k = userId user \<and> vk_vaultId k = vaultId
                  \<and> fst (get_vault_key e d user vaultId)
                      = Json (VaultKeyBody
                          \<lparr>vv_vaultId = vk_vaultId k,
                           vv_encryptedVaultKey = vk_encryptedVaultKey k,
                           vv_salt = vk_salt k, vv_nonce = vk_nonce k,
                           vv_createdAt = vk_createdAt k\<rparr>) 200)
          (vaultKeys d)"
        unfolding list_ex_iff using kk r by (intro bexI [of _ k]) simp_all
      have rest: "snd (get_vault_key e d user vaultId) = d
          \<and> status (fst (get_vault_key e d user vaultId)) \<noteq> 400"
        by (simp add: r)
      show ?thesis using True ex rest upd create by blast
    qed
  qed
qed

theorem get_vault_key_not_validated_witness:
  "\<not> is_uuid example_env ''my vault''
   \<and> fst (get_vault_key example_env legacy_db alice ''my vault'')
       = Json (VaultKeyBody \<lparr>vv_vaultId = ''my vault'', vv_encryptedVaultKey = ''key-0'',
                             vv_salt = ''salt-0'', vv_nonce = ''nonce-0'',
                             vv_createdAt = ''2024-01-01T00:00:00''\<rparr>) 200
   \<and> fst (get_vault_key example_env legacy_db alice ''no such vault'')
       = Json (ErrorBody ''Vault key not found'') 404
   \<and> post_vault_key example_env legacy_db alice legacy_key = (Json ZodErrorBody 400, legacy_db)"
proof -
  have n: "\<not> is_uuid example_env (vj_vaultId legacy_key)"
    by (simp add: example_env_def legacy_key_def uuid_8_4_4_4_12_def)
  have p: "post_vault_key example_env legacy_db alice legacy_key = (Json ZodErrorBody 400, legacy_db)"
    using get_vault_key_not_validated [of example_env legacy_db alice "''my vault''" "\<lambda>s. True" legacy_key] n
    by blast
  have a1: "store_answers example_env (SelectVaultKey (userId alice) ''my vault'')"
    by (simp add: store_answers_def example_env_def text_ok_def)
  have a2: "store_answers example_env (SelectVaultKey (userId alice) ''no such vault'')"
    by (simp add: store_answers_def example_env_def text_ok_def)
  have g: "fst (get_vault_key example_env legacy_db alice ''my vault'')
       = Json (VaultKeyBody \<lparr>vv_vaultId = ''my vault'', vv_encryptedVaultKey = ''key-0'',
                             vv_salt = ''salt-0'', vv_nonce = ''nonce-0'',
                             vv_createdAt = ''2024-01-01T00:00:00''\<rparr>) 200"
    using a1
    by (simp add: get_vault_key_def vaultKeys_findFirst_stored stored_key_def legacy_db_def
          alice_def view_of_def)
  have m: "fst (get_vault_key example_env legacy_db alice ''no such vault'')
       = Json (ErrorBody ''Vault key not found'') 404"
    using a2
    by (simp add: get_vault_key_def vaultKeys_findFirst_stored stored_key_def legacy_db_def
          alice_def)
  from n have "\<not> is_uuid example_env ''my vault''" by (simp add: legacy_key_def)
  with p g m show ?thesis by simp
qed

text \<open>
  The claim C10 as stated fails: the read route takes the vault id U+0000 without
  validation, the query fails on it, and the answer is neither a record nor 404.
\<close>

theorem get_vault_key_nul_fails:
  "fst (get_vault_key example_env legacy_db alice nul_vault)
     = Json (ErrorBody ''Internal server error'') 500
   \<and> status (fst (get_vault_key example_env legacy_db alice nul_vault)) \<noteq> 404
   \<and> status (fst (get_vault_key example_env legacy_db alice nul_vault)) \<noteq> 200"
proof -
  have "\<not> store_answers example_env (SelectVaultKey (userId alice) nul_vault)"
    by (simp add: store_answers_def nul_vault_def text_ok_def)
  then have "get_vault_key example_env legacy_db alice nul_vault = (internal_error, legacy_db)"
    by (simp add: get_vault_key_def vaultKeys_findFirst_def)
  then show ?thesis by (simp add: internal_error_def)
qed

section \<open>Isolation\<close>

subsection \<open>What each route shows\<close>

lemma post_vault_key_shows:
  "shows_only (snd (post_vault_key e d user j)) (userId user) (body (fst (post_vault_key e d user j)))"
  by (simp add: post_vault_key_def Let_def vaultKeys_insert_def vaultKeys_findFirst_def
      shows_only_def internal_error_def split: option.split)

lemma get_vault_key_shows:
  "shows_only (snd (get_vault_key e d user v)) (userId user) (body (fst (get_vault_key e d user v)))"
proof (cases "store_answers e (SelectVaultKey (userId user) v)")
  case False
  then show ?thesis
    by (simp add: get_vault_key_def vaultKeys_findFirst_def shows_only_def internal_error_def)
next
  case True
  show ?thesis
  proof (cases "stored_key (vaultKeys d) (userId user) v")
    case None
    with True show ?thesis
      by (simp add: get_vault_key_def vaultKeys_findFirst_stored shows_only_def)
  next
    case (Some k)
    then have "k \<in> set (vaultKeys d) \<and> vk_userId k = userId user \<and> vk_vaultId k = v"
      by (rule stored_key_found)
    then have "list_ex (\<lambda>k'. vk_userId k' = userId user \<and> view_of k' = view_of k) (vaultKeys d)"
      unfolding list_ex_iff by blast
    with True Some show ?thesis
      by (simp add: get_vault_key_def vaultKeys_findFirst_stored shows_only_def)
  qed
qed

lemma post_push_shows:
  "shows_only (snd (post_push e d user j)) (userId user) (body (fst (post_push e d user j)))"
proof (cases "is_uuid e (pj_vaultId j)")
  case False
  then show ?thesis by (simp add: post_push_def shows_only_def)
next
  case True
  show ?thesis
  proof (cases "syncLogs_findFirst_desc e (syncLogs d) (userId user)")
    case (Inl err)
    with True show ?thesis
      by (simp add: post_push_def shows_only_def internal_error_def)
  next
    case (Inr x)
    let ?vals = "push_values e (userId user) (pj_vaultId j) (currentSequence x) 0 (pj_logs j)"
    show ?thesis
    proof (cases "syncLogs_insert e (syncLogs d) ?vals")
      case (Inl err)
      with True Inr show ?thesis
        by (simp add: post_push_def Let_def shows_only_def internal_error_def)
    next
      case (Inr rows)
      then have rows: "rows = syncLogs d @ ?vals"
        by (auto simp: syncLogs_insert_def split: if_splits)
      have "list_all (\<lambda>x. list_ex (\<lambda>r. sl_userId r = userId user \<and> returning r = x) rows)
              (map returning ?vals)"
        unfolding list_all_iff list_ex_iff rows
        using push_values_owner [of _ e "userId user" "pj_vaultId j"] by fastforce
      with True \<open>syncLogs_findFirst_desc e (syncLogs d) (userId user) = Inr x\<close> Inr show ?thesis
        by (simp add: post_push_def Let_def shows_only_def)
    qed
  qed
qed

lemma findMany_rows:
  assumes "syncLogs_findMany e rows (whereConditions u v a) lim = Inr logs"
  shows "\<forall>r \<in> set logs. r \<in> set rows \<and> sl_userId r = u"
proof -
  have "logs = take (nat lim) (sort_key sl_sequence (qualifying rows u v a))"
    using assms by (simp add: findMany_whereConditions split: if_splits)
  then have "set logs \<subseteq> set (qualifying rows u v a)"
    using set_take_subset [of "nat lim" "sort_key sl_sequence (qualifying rows u v a)"] by simp
  then show ?thesis by (auto simp: qualifying_def)
qed

lemma post_pull_shows:
  "shows_only (snd (post_pull e d user j)) (userId user) (body (fst (post_pull e d user j)))"
proof (cases "is_uuid e (qj_vaultId j)")
  case False
  then show ?thesis by (simp add: post_pull_def shows_only_def)
next
  case True
  show ?thesis
  proof (cases "parse_limit (qj_limit j)")
    case None
    with True show ?thesis by (simp add: post_pull_def shows_only_def)
  next
    case (Some limit)
    show ?thesis
    proof (cases "syncLogs_findMany e (syncLogs d)
                    (whereConditions (userId user) (qj_vaultId j) (qj_afterSequence j)) (limit + 1)")
      case (Inl err)
      with True Some show ?thesis
        by (simp add: post_pull_def shows_only_def internal_error_def)
    next
      case (Inr logs)
      then have own: "\<forall>r \<in> set logs. r \<in> set (syncLogs d) \<and> sl_userId r = userId user"
        by (rule findMany_rows)
      have "set (take (nat limit) logs) \<subseteq> set logs" by (rule set_take_subset)
      with own have "list_all (\<lambda>x. list_ex (\<lambda>r. sl_userId r = userId user \<and> pulled r = x) (syncLogs d))
              (map pulled (take (nat limit) logs))"
        unfolding list_all_iff list_ex_iff by fastforce
      with True Some Inr show ?thesis
        by (simp add: post_pull_def Let_def shows_only_def)
    qed
  qed
qed

subsection \<open>What each route depends on\<close>

lemma find_filter: "List.find (\<lambda>x. P x \<and> Q x) xs = List.find Q (filter P xs)"
  by (induction xs) auto

lemma own_rows_vaultKeys:
  "own_rows d2 a = own_rows d a
   \<Longrightarrow> filter (\<lambda>k. vk_userId k = a) (vaultKeys d2) = filter (\<lambda>k. vk_userId k = a) (vaultKeys d)"
  by (simp add: own_rows_def)

lemma own_rows_syncLogs:
  "own_rows d2 a = own_rows d a
   \<Longrightarrow> filter (\<lambda>r. sl_userId r = a) (syncLogs d2) = filter (\<lambda>r. sl_userId r = a) (syncLogs d)"
  by (simp add: own_rows_def)

lemma stored_key_own:
  assumes "own_rows d2 a = own_rows d a"
  shows "stored_key (vaultKeys d2) a v = stored_key (vaultKeys d) a v"
  using own_rows_vaultKeys [OF assms] by (simp add: stored_key_def find_filter)

lemma get_vault_key_own:
  assumes "own_rows d2 (userId user) = own_rows d (userId user)"
  shows "fst (get_vault_key e d2 user v) = fst (get_vault_key e d user v)"
  by (simp add: get_vault_key_def vaultKeys_findFirst_stored stored_key_own [OF assms]
      split: option.split)

lemma post_vault_key_response:
  "fst (post_vault_key e d user j) =
     (if \<not> is_uuid e (vj_vaultId j) then Json ZodErrorBody 400
      else if \<not> store_answers e (SelectVaultKey (userId user) (vj_vaultId j)) then internal_error
      else case stored_key (vaultKeys d) (userId user) (vj_vaultId j) of
             Some k \<Rightarrow> Json (ErrorBody ''Vault key already exists for this vault'') 409
           | None \<Rightarrow>
               if store_answers e (InsertVaultKey
                    \<lparr>vk_id = gen_random_uuid e 0, vk_userId = userId user,
                     vk_vaultId = vj_vaultId j, vk_encryptedVaultKey = vj_encryptedVaultKey j,
                     vk_salt = vj_salt j, vk_nonce = vj_nonce j, vk_createdAt = now e,
                     vk_updatedAt = now e\<rparr>)
               then Json (VaultKeyStored ''Vault key stored successfully'' (gen_random_uuid e 0)
                            (vj_vaultId j) (now e)) 201
               else internal_error)"
proof (cases "is_uuid e (vj_vaultId j)")
  case False
  then show ?thesis by (simp add: post_vault_key_def)
next
  case True
  show ?thesis
  proof (cases "stored_key (vaultKeys d) (userId user) (vj_vaultId j)")
    case None
    show ?thesis
      unfolding post_vault_key_first [OF True None refl] None
      using True by simp
  next
    case (Some k)
    show ?thesis
      unfolding post_vault_key_existing [OF True Some] Some
      using True by simp
  qed
qed

lemma post_vault_key_own:
  assumes "own_rows d2 (userId user) = own_rows d (userId user)"
  shows "fst (post_vault_key e d2 user j) = fst (post_vault_key e d user j)"
  by (simp only: post_vault_key_response stored_key_own [OF assms])

lemma max_sequence_own:
  assumes "own_rows d2 a = own_rows d a"
  shows "max_sequence (syncLogs d2) a = max_sequence (syncLogs d) a"
  using own_rows_syncLogs [OF assms] by (simp add: max_sequence_def)

lemma timestamp_taken_own:
  "(a, t) \<in> set (map user_timestamp rows)
   \<longleftrightarrow> t \<in> set (map sl_haexTimestamp (filter (\<lambda>r. sl_userId r = a) rows))"
  by (auto simp: user_timestamp_def)

lemma batch_accepted_own:
  assumes "own_rows d2 a = own_rows d a"
  shows "batch_accepted e (syncLogs d2) a v logs = batch_accepted e (syncLogs d) a v logs"
proof -
  have t: "list_ex (\<lambda>l. (a, haexTimestamp l) \<in> set (map user_timestamp (syncLogs d2))) logs
           = list_ex (\<lambda>l. (a, haexTimestamp l) \<in> set (map user_timestamp (syncLogs d))) logs"
    by (simp only: timestamp_taken_own own_rows_syncLogs [OF assms])
  show ?thesis
    unfolding batch_accepted_def t max_sequence_own [OF assms] ..
qed

lemma post_push_own:
  assumes "own_rows d2 (userId user) = own_rows d (userId user)"
  shows "fst (post_push e d2 user j) = fst (post_push e d user j)"
proof (cases "is_uuid e (pj_vaultId j)")
  case False
  then show ?thesis by (simp add: post_push_def)
next
  case True
  show ?thesis
    unfolding post_push_cases [OF True] batch_accepted_own [OF assms] max_sequence_own [OF assms]
    by simp
qed

lemma qualifying_own:
  "qualifying rows u v a = qualifying (filter (\<lambda>r. sl_userId r = u) rows) u v a"
  by (simp add: qualifying_def conj_commute cong: conj_cong)

lemma post_pull_own:
  assumes "own_rows d2 (userId user) = own_rows d (userId user)"
  shows "fst (post_pull e d2 user j) = fst (post_pull e d user j)"
proof -
  have "qualifying (syncLogs d2) (userId user) v a = qualifying (syncLogs d) (userId user) v a" for v a
    using own_rows_syncLogs [OF assms]
      qualifying_own [of "syncLogs d2" "userId user" v a]
      qualifying_own [of "syncLogs d" "userId user" v a] by simp
  then show ?thesis
    by (simp add: post_pull_def findMany_whereConditions Let_def split: option.split)
qed

text \<open>
  Claim C6.  For a request of any route by a caller the middleware authenticates as user
  A, with any \<open>vaultId\<close>: every vault key and every log entry in the response is the image
  of a stored row whose \<open>userId\<close> is A, and the response is the same for every store
  that holds the same rows of A, whatever the rows of the other users are.
\<close>

theorem responses_show_only_own_rows:
  assumes "authMiddleware e authHeader = Inr user"
  shows "shows_only (snd (sync e d authHeader req)) (userId user)
           (body (fst (sync e d authHeader req)))
         \<and> (own_rows d2 (userId user) = own_rows d (userId user)
              \<longrightarrow> fst (sync e d2 authHeader req) = fst (sync e d authHeader req))"
proof (cases req)
  case (PostVaultKey j)
  then show ?thesis
    using assms post_vault_key_shows [of e d user j] post_vault_key_own [of d2 user d e j]
    by (simp add: sync_def)
next
  case (GetVaultKey v)
  then show ?thesis
    using assms get_vault_key_shows [of e d user v] get_vault_key_own [of d2 user d e v]
    by (simp add: sync_def)
next
  case (PostPush j)
  then show ?thesis
    using assms post_push_shows [of e d user j] post_push_own [of d2 user d e j]
    by (simp add: sync_def)
next
  case (PostPull j)
  then show ?thesis
    using assms post_pull_shows [of e d user j] post_pull_own [of d2 user d e j]
    by (simp add: sync_def)
qed

lemma bob_authenticated:
  "authMiddleware example_env (Some ''Bearer bob-token'')
   = Inr \<lparr>userId = ''bob'', email = None, role = None\<rparr>"
  by (simp add: authMiddleware_def startsWith_def example_env_def)

theorem responses_show_only_own_rows_witness:
  "fst (sync example_env pull_db (Some ''Bearer bob-token'') (PostPull crafted_pull))
     = fst (sync example_env bob_only_db (Some ''Bearer bob-token'') (PostPull crafted_pull))
   \<and> fst (sync example_env bob_only_db (Some ''Bearer bob-token'') (PostPull crafted_pull))
     = Json (PullBody [pulled (example_log ''p1'' ''bob'' v1 ''t-7'' 7)] False) 200"
proof -
  have o: "own_rows pull_db (userId \<lparr>userId = ''bob'', email = None, role = None\<rparr>)
           = own_rows bob_only_db (userId \<lparr>userId = ''bob'', email = None, role = None\<rparr>)"
    by (simp add: own_rows_def pull_db_def bob_only_db_def example_log_def)
  have a: "fst (sync example_env pull_db (Some ''Bearer bob-token'') (PostPull crafted_pull))
           = fst (sync example_env bob_only_db (Some ''Bearer bob-token'') (PostPull crafted_pull))"
    using responses_show_only_own_rows [OF bob_authenticated, of bob_only_db "PostPull crafted_pull" pull_db] o
    by blast
  have u: "is_uuid example_env (qj_vaultId crafted_pull)"
    by (simp add: example_env_def crafted_pull_def v1_uuid)
  have l: "parse_limit (qj_limit crafted_pull) = Some 100"
    by (simp add: parse_limit_def crafted_pull_def)
  have q: "sort_key sl_sequence (qualifying (syncLogs bob_only_db) ''bob'' (qj_vaultId crafted_pull)
             (qj_afterSequence crafted_pull))
           = [example_log ''p1'' ''bob'' v1 ''t-7'' 7]"
    by (simp add: qualifying_def after_holds_def bob_only_db_def crafted_pull_def example_log_def)
  have r: "after_in_range (qj_afterSequence crafted_pull)"
    by (simp add: after_in_range_def crafted_pull_def)
  have st: "store_answers example_env (SelectSyncLogs
               (whereConditions ''bob'' (qj_vaultId crafted_pull) (qj_afterSequence crafted_pull))
               (100 + 1))"
    by (simp add: store_answers_def whereConditions_def crafted_pull_def example_env_def
          text_ok_def v1_no_nul)
  have n: "length (qualifying (syncLogs bob_only_db) ''bob'' (qj_vaultId crafted_pull)
             (qj_afterSequence crafted_pull)) = 1"
    using arg_cong [OF q, of length] by simp
  have b: "fst (sync example_env bob_only_db (Some ''Bearer bob-token'') (PostPull crafted_pull))
           = Json (PullBody [pulled (example_log ''p1'' ''bob'' v1 ''t-7'' 7)] False) 200"
    using st by (simp add: sync_def bob_authenticated post_pull_cases [OF u l] r q n)
  from a b show ?thesis by simp
qed

end
